theory Spec2Isabelle
  imports Main
begin

section \<open>JavaScript containers\<close>

text \<open>
  A JavaScript \<^verbatim>\<open>Set\<close> keeps its elements in insertion order and never holds an
  element twice; \<^verbatim>\<open>Array.from(set)\<close> reads them in that order. It is modelled
  as a list: \<^verbatim>\<open>add\<close> appends an element that is not yet present and does nothing
  otherwise. That a list built this way has no duplicate is a theorem, not an assumption.
\<close>

definition set_has :: "'a list \<Rightarrow> 'a \<Rightarrow> bool" where
  "set_has xs x = (x \<in> set xs)"

definition set_add :: "'a list \<Rightarrow> 'a \<Rightarrow> 'a list" where
  "set_add xs x = (if set_has xs x then xs else xs @ [x])"

definition set_delete :: "'a list \<Rightarrow> 'a \<Rightarrow> 'a list" where
  "set_delete xs x = removeAll x xs"

text \<open>
  A JavaScript \<^verbatim>\<open>Map\<close> iterates in insertion order; \<^verbatim>\<open>set\<close> on a key that is
  present replaces the value in place, on a new key it appends the entry.
\<close>

definition map_get :: "('k \<times> 'v) list \<Rightarrow> 'k \<Rightarrow> 'v option" where
  "map_get m k = map_of m k"

definition map_has :: "('k \<times> 'v) list \<Rightarrow> 'k \<Rightarrow> bool" where
  "map_has m k = (map_of m k \<noteq> None)"

fun map_set :: "('k \<times> 'v) list \<Rightarrow> 'k \<Rightarrow> 'v \<Rightarrow> ('k \<times> 'v) list" where
  "map_set [] k v = [(k, v)]"
| "map_set ((k', v') # m) k v = (if k' = k then (k, v) # m else (k', v') # map_set m k v)"

section \<open>Cards and the row check\<close>

text \<open>
  A card is an array of rows; a row is an array of slots, each a number or \<^verbatim>\<open>null\<close>.
  A row of a card a client sent may itself be \<^verbatim>\<open>null\<close>.
\<close>

type_synonym slot = "int option"
type_synonym row = "slot list"
type_synonym card = "row option list"

text \<open>\<^verbatim>\<open>row.filter(num => num !== null)\<close>: the numbers of the non-blank slots, in order.\<close>

fun nonNull :: "row \<Rightarrow> int list" where
  "nonNull [] = []"
| "nonNull (None # r) = nonNull r"
| "nonNull (Some n # r) = n # nonNull r"

text \<open>
  \<^verbatim>\<open>checkRowComplete(row, drawnNumbers)\<close> of server.js: \<^verbatim>\<open>null\<close> (here \<open>None\<close>) for a
  missing or empty row, the row's numbers when all of them are drawn and there are
  exactly five, \<^verbatim>\<open>null\<close> otherwise.
\<close>

definition checkRowComplete :: "row option \<Rightarrow> int list \<Rightarrow> int list option" where
  "checkRowComplete row drawnNumbers =
     (case row of
        None \<Rightarrow> None
      | Some r \<Rightarrow>
          if length r = 0 then None
          else
            let rowNumbers = nonNull r;
                allMarked = list_all (\<lambda>num. set_has drawnNumbers num) rowNumbers
            in if allMarked \<and> length rowNumbers = 5 then Some rowNumbers else None)"

section \<open>The history of closed rooms\<close>

record historyEntry =
  h_roomId :: string
  h_createdAt :: int
  h_closedAt :: int
  h_winner :: string
  h_winnerRowNumber :: nat
  h_winnerNumbers :: "int list"
  h_winnerBingoCard :: "card option"
  h_totalPlayers :: nat
  h_totalNumbersDrawn :: nat

text \<open>
  \<^verbatim>\<open>cleanupOldRooms(maxSize)\<close>: nothing when the history fits; otherwise a stable sort
  by \<^verbatim>\<open>closedAt\<close> (dates as milliseconds) and \<^verbatim>\<open>slice(removed)\<close>, which drops the
  first \<^verbatim>\<open>removed = length - maxSize\<close> records. \<^verbatim>\<open>maxSize\<close> is an integer: it comes
  from \<^verbatim>\<open>parseInt\<close> of an environment variable.
\<close>

definition cleanupOldRooms :: "int \<Rightarrow> historyEntry list \<Rightarrow> historyEntry list" where
  "cleanupOldRooms maxSize roomHistory =
     (if int (length roomHistory) \<le> maxSize then roomHistory
      else
        let sorted_h = sort_key h_closedAt roomHistory;
            removed = int (length sorted_h) - maxSize
        in drop (nat removed) sorted_h)"

text \<open>
  \<^verbatim>\<open>checkDiskSpaceAndCleanup()\<close>. The size of the history file on disk is outside the
  program: \<open>fileTooBig\<close> says whether the file exists and is larger than 100 MB, the
  only thing the function reads from it. \<^verbatim>\<open>Math.floor(MAX_HISTORY_SIZE * 0.8)\<close> is
  \<open>(MAX_HISTORY_SIZE * 4) div 5\<close>.
\<close>

definition checkDiskSpaceAndCleanup :: "int \<Rightarrow> bool \<Rightarrow> historyEntry list \<Rightarrow> historyEntry list" where
  "checkDiskSpaceAndCleanup MAX_HISTORY_SIZE fileTooBig roomHistory =
     (if int (length roomHistory) > MAX_HISTORY_SIZE then cleanupOldRooms MAX_HISTORY_SIZE roomHistory
      else if fileTooBig then cleanupOldRooms ((MAX_HISTORY_SIZE * 4) div 5) roomHistory
      else roomHistory)"

text \<open>\<^verbatim>\<open>addRoomToHistory(roomData)\<close>: push, then the cleanup.\<close>

definition addRoomToHistory :: "int \<Rightarrow> bool \<Rightarrow> historyEntry \<Rightarrow> historyEntry list \<Rightarrow> historyEntry list" where
  "addRoomToHistory MAX_HISTORY_SIZE fileTooBig roomData roomHistory =
     checkDiskSpaceAndCleanup MAX_HISTORY_SIZE fileTooBig (roomHistory @ [roomData])"

section \<open>Strings\<close>

text \<open>
  Truthiness of a value that is a string, \<^verbatim>\<open>null\<close> or \<^verbatim>\<open>undefined\<close>: only a
  non-empty string is truthy.
\<close>

fun truthy :: "string option \<Rightarrow> bool" where
  "truthy None = False"
| "truthy (Some s) = (s \<noteq> [])"

text \<open>A number in a template literal: its decimal digits.\<close>

fun show_nat :: "nat \<Rightarrow> string" where
  "show_nat n =
     (if n < 10 then [''0123456789'' ! n]
      else show_nat (n div 10) @ [''0123456789'' ! (n mod 10)])"

declare show_nat.simps [simp del]


definition isSpace :: "char \<Rightarrow> bool" where
  "isSpace c = (c \<in> set [CHR '' '', CHR 0x09, CHR 0x0A, CHR 0x0B, CHR 0x0C, CHR 0x0D])"

definition trim :: "string \<Rightarrow> string" where
  "trim s = rev (dropWhile isSpace (rev (dropWhile isSpace s)))"

definition toLowerCase :: "string \<Rightarrow> string" where
  "toLowerCase s =
     map (\<lambda>c. case map_of (zip ''ABCDEFGHIJKLMNOPQRSTUVWXYZ'' ''abcdefghijklmnopqrstuvwxyz'') c of
                 Some l \<Rightarrow> l
               | None \<Rightarrow> c) s"

text \<open>
  \<^verbatim>\<open>generateRoomCode()\<close>. Each of its six rounds reads
  \<^verbatim>\<open>Math.floor(Math.random() * chars.length)\<close>; the list \<open>rs\<close> holds these six numbers.
  \<^verbatim>\<open>charAt\<close> gives the empty string out of range.
\<close>

definition chars :: string where
  "chars = ''ABCDEFGHIJKLMNOPQRSTUVWXYZ0123456789''"

definition charAt :: "string \<Rightarrow> nat \<Rightarrow> string" where
  "charAt s i = (if i < length s then [s ! i] else [])"

definition generateRoomCode :: "nat list \<Rightarrow> string" where
  "generateRoomCode rs = foldl (\<lambda>code r. code @ charAt chars r) [] rs"

section \<open>The server's state\<close>

text \<open>
  The model covers the socket handlers of server.js, the win-check timer and the history
  functions they call. The HTTP routes only read this state, and the history file is
  only written, except for its size, which is an input of the append.

  The objects of server.js. A \<^verbatim>\<open>user\<close> is the value of the \<^verbatim>\<open>users\<close> map, a
  \<^verbatim>\<open>playerData\<close> the value of a room's \<^verbatim>\<open>playerData\<close> map. Socket ids, room codes
  and player ids are strings; dates are milliseconds. Payload fields that a client may
  leave out are options.
\<close>

record user =
  u_userId :: string
  u_username :: string
  u_isAdmin :: bool
  u_roomId :: "string option"
  u_bingoCard :: "card option"
  u_playerId :: "string option"

record playerData =
  p_username :: string
  p_bingoCard :: "card option"
  p_socketId :: "string option"

record winnerInfo =
  w_playerId :: string
  w_playerName :: string
  w_rowNumber :: nat
  w_numbers :: "int list"
  w_bingoCard :: "card option"

record completedRow =
  c_playerId :: string
  c_playerName :: string
  c_rowNumber :: nat
  c_numbers :: "int list"

record room =
  r_roomId :: string
  r_adminId :: string
  r_adminSocketId :: "string option"
  r_players :: "string list"
  r_drawnNumbers :: "int list"
  r_gameStarted :: bool
  r_gameOver :: bool
  r_winner :: "string option"
  r_winnerInfo :: "winnerInfo option"
  r_createdAt :: int
  r_playerData :: "(string \<times> playerData) list"
  r_completedRows :: "string list"

text \<open>
  Rooms and users are JavaScript objects: the maps \<^verbatim>\<open>rooms\<close> and \<^verbatim>\<open>users\<close> hold
  references, and the closure of a win-check timer keeps the \<^verbatim>\<open>room\<close> and the
  \<^verbatim>\<open>user\<close> of the draw that scheduled it, also after the room was closed or the user
  disconnected. So the state has a store of room objects and one of user objects
  (\<open>roomObjs\<close>, \<open>userObjs\<close>, with the next free address), the two maps hold addresses,
  and a pending timer is a pair of addresses. \<open>sockets\<close> is
  \<^verbatim>\<open>io.sockets.sockets\<close>, the connected sockets; \<open>timers\<close> are the pending win checks,
  oldest first (all have the same delay, so they fire in this order).
\<close>

record state =
  rooms :: "string \<rightharpoonup> nat"
  roomObjs :: "nat \<Rightarrow> room"
  roomNext :: nat
  users :: "string \<rightharpoonup> nat"
  userObjs :: "nat \<Rightarrow> user"
  userNext :: nat
  sockets :: "string set"
  roomHistory :: "historyEntry list"
  timers :: "(nat \<times> nat) list"

record config =
  cfg_adminUsername :: string
  cfg_adminPassword :: string
  cfg_MAX_HISTORY_SIZE :: int

text \<open>
  The messages of the \<^verbatim>\<open>error\<close> event:
  \<open>OnlyAdminsCanCreateRooms\<close> 'Only admins can create rooms',
  \<open>RoomNotFound\<close> 'Room not found',
  \<open>PleaseEnterYourName\<close> 'Please enter your name',
  \<open>NameTaken\<close> 'This name is already taken. Please choose another name.',
  \<open>InvalidRequest\<close> 'Invalid request',
  \<open>OnlyRoomAdminCanDraw\<close> 'Only room admin can draw numbers',
  \<open>GameIsOver\<close> 'Game is over! A winner has been declared.',
  \<open>AllNumbersDrawn\<close> 'All numbers have been drawn!'.
\<close>

datatype error =
    OnlyAdminsCanCreateRooms
  | RoomNotFound
  | PleaseEnterYourName
  | NameTaken
  | InvalidRequest
  | OnlyRoomAdminCanDraw
  | GameIsOver
  | AllNumbersDrawn

text \<open>The two messages of \<^verbatim>\<open>room:closed\<close>: 'Room has been closed' and
  'Game is over. Room is closing.'.\<close>

datatype closed = ClosedByAdmin | ClosedAfterGameOver

text \<open>The outbound events with their payloads, in the order of the fields in server.js.\<close>

datatype msg =
    AdminLoginSuccess bool string
  | AdminLoginError
  | RoomCreated string nat bool "int list option"
  | RoomJoined string nat bool "int list" string string "card option"
  | PlayerJoined nat string string
  | PlayersList "(string \<times> string \<times> card option) list"
  | PlayerBingoCard string string "card option"
  | NumberDrawn int int "int list"
  | RowCompleted string nat "int list"
  | RoomClosed closed
  | PlayerLeft nat "string option" string
  | Error error

text \<open>\<open>Emit s m\<close> is an emit on the socket with id \<open>s\<close>; \<open>Broadcast r m\<close> is
  \<^verbatim>\<open>io.to(r).emit\<close>, an emit to the socket.io room named \<open>r\<close>. Which sockets have
  joined that socket.io room is not part of the model.\<close>

datatype out = Emit string msg | Broadcast "string option" msg

definition init :: "historyEntry list \<Rightarrow> state" where
  "init h =
     \<lparr>rooms = Map.empty,
      roomObjs = (\<lambda>_. \<lparr>r_roomId = [], r_adminId = [], r_adminSocketId = None, r_players = [],
                        r_drawnNumbers = [], r_gameStarted = False, r_gameOver = False,
                        r_winner = None, r_winnerInfo = None, r_createdAt = 0,
                        r_playerData = [], r_completedRows = []\<rparr>),
      roomNext = 0,
      users = Map.empty,
      userObjs = (\<lambda>_. \<lparr>u_userId = [], u_username = [], u_isAdmin = False, u_roomId = None,
                        u_bingoCard = None, u_playerId = None\<rparr>),
      userNext = 0,
      sockets = {},
      roomHistory = h,
      timers = []\<rparr>"

definition updRoom :: "nat \<Rightarrow> (room \<Rightarrow> room) \<Rightarrow> state \<Rightarrow> state" where
  "updRoom ra f st = st\<lparr>roomObjs := (roomObjs st)(ra := f (roomObjs st ra))\<rparr>"

definition updUser :: "nat \<Rightarrow> (user \<Rightarrow> user) \<Rightarrow> state \<Rightarrow> state" where
  "updUser ua f st = st\<lparr>userObjs := (userObjs st)(ua := f (userObjs st ua))\<rparr>"

text \<open>\<^verbatim>\<open>rooms.get(roomId)\<close> for a \<^verbatim>\<open>roomId\<close> that may be undefined: the code and the
  address of the room.\<close>

definition lookupRoom :: "state \<Rightarrow> string option \<Rightarrow> (string \<times> nat) option" where
  "lookupRoom st roomId =
     (case roomId of
        None \<Rightarrow> None
      | Some rid \<Rightarrow> (case rooms st rid of None \<Rightarrow> None | Some ra \<Rightarrow> Some (rid, ra)))"

section \<open>The handlers\<close>

text \<open>Every handler takes the id of the socket it runs for and returns the new state
  with the events it emitted, in order.\<close>

text \<open>\<^verbatim>\<open>sendPlayersListToAdmin(room)\<close>: to the admin's socket, when it is connected.\<close>

definition sendPlayersListToAdmin :: "state \<Rightarrow> room \<Rightarrow> out list" where
  "sendPlayersListToAdmin st room =
     (case r_adminSocketId room of
        None \<Rightarrow> []
      | Some s \<Rightarrow>
          if s \<in> sockets st
          then [Emit s (PlayersList (map (\<lambda>(playerId, pd). (playerId, p_username pd, p_bingoCard pd))
                                         (r_playerData room)))]
          else [])"

text \<open>\<^verbatim>\<open>io.on('connection')\<close>: the socket is connected from now on.\<close>

definition connection :: "string \<Rightarrow> state \<Rightarrow> state \<times> out list" where
  "connection sock st = (st\<lparr>sockets := insert sock (sockets st)\<rparr>, [])"

text \<open>\<^verbatim>\<open>admin:login\<close>: a new user object for the socket.\<close>

definition adminLogin :: "config \<Rightarrow> string \<Rightarrow> string \<Rightarrow> string \<Rightarrow> state \<Rightarrow> state \<times> out list" where
  "adminLogin cfg sock username password st =
     (if username = cfg_adminUsername cfg \<and> password = cfg_adminPassword cfg
      then
        let ua = userNext st;
            user = \<lparr>u_userId = sock, u_username = username, u_isAdmin = True, u_roomId = None,
                    u_bingoCard = None, u_playerId = None\<rparr>
        in (st\<lparr>users := (users st)(sock \<mapsto> ua),
                userObjs := (userObjs st)(ua := user),
                userNext := Suc ua\<rparr>,
            [Emit sock (AdminLoginSuccess True username)])
      else (st, [Emit sock AdminLoginError]))"

text \<open>
  \<^verbatim>\<open>room:create\<close>. \<open>reconnectTarget\<close> is the test
  \<^verbatim>\<open>existingRoomId && rooms.has(existingRoomId)\<close> followed by \<^verbatim>\<open>!room.adminSocketId\<close>.
  The loop \<^verbatim>\<open>do { roomCode = generateRoomCode() } while (rooms.has(roomCode))\<close> is
  \<open>pickRoomCode\<close> over the codes that the successive calls generate; it has not returned
  (\<open>None\<close>) when all the codes supplied are taken.
\<close>

definition reconnectTarget :: "state \<Rightarrow> string option \<Rightarrow> (string \<times> nat) option" where
  "reconnectTarget st existingRoomId =
     (if truthy existingRoomId
      then (case lookupRoom st existingRoomId of
              None \<Rightarrow> None
            | Some (rid, ra) \<Rightarrow>
                if \<not> truthy (r_adminSocketId (roomObjs st ra)) then Some (rid, ra) else None)
      else None)"

fun pickRoomCode :: "(string \<rightharpoonup> nat) \<Rightarrow> string list \<Rightarrow> string option" where
  "pickRoomCode rms [] = None"
| "pickRoomCode rms (roomCode # rest) =
     (if rms roomCode \<noteq> None then pickRoomCode rms rest else Some roomCode)"

definition newRoom :: "string \<Rightarrow> string \<Rightarrow> int \<Rightarrow> room" where
  "newRoom roomCode sock now =
     \<lparr>r_roomId = roomCode, r_adminId = sock, r_adminSocketId = Some sock, r_players = [sock],
      r_drawnNumbers = [], r_gameStarted = False, r_gameOver = False, r_winner = None,
      r_winnerInfo = None, r_createdAt = now, r_playerData = [], r_completedRows = []\<rparr>"

definition roomCreate ::
  "string \<Rightarrow> string option \<Rightarrow> nat list list \<Rightarrow> int \<Rightarrow> state \<Rightarrow> (state \<times> out list) option" where
  "roomCreate sock existingRoomId codeSamples now st =
     (case users st sock of
        None \<Rightarrow> Some (st, [Emit sock (Error OnlyAdminsCanCreateRooms)])
      | Some ua \<Rightarrow>
          if \<not> u_isAdmin (userObjs st ua)
          then Some (st, [Emit sock (Error OnlyAdminsCanCreateRooms)])
          else
            let st1 = (if u_username (userObjs st ua) = []
                       then updUser ua (\<lambda>u. u\<lparr>u_username := ''Admin''\<rparr>) st else st)
            in (case reconnectTarget st1 existingRoomId of
                  Some (rid, ra) \<Rightarrow>
                    let st2 = updRoom ra (\<lambda>r. r\<lparr>r_adminSocketId := Some sock,
                                                  r_players := set_add (r_players r) sock\<rparr>) st1;
                        st3 = updUser ua (\<lambda>u. u\<lparr>u_roomId := Some rid\<rparr>) st2;
                        room = roomObjs st3 ra
                    in Some (st3,
                         Emit sock (RoomCreated rid (length (r_players room)) True
                                      (Some (r_drawnNumbers room)))
                         # sendPlayersListToAdmin st3 room)
                | None \<Rightarrow>
                    (case pickRoomCode (rooms st1) (map generateRoomCode codeSamples) of
                       None \<Rightarrow> None
                     | Some roomCode \<Rightarrow>
                         let ra = roomNext st1;
                             room = newRoom roomCode sock now;
                             st2 = st1\<lparr>rooms := (rooms st1)(roomCode \<mapsto> ra),
                                       roomObjs := (roomObjs st1)(ra := room),
                                       roomNext := Suc ra\<rparr>;
                             st3 = updUser ua (\<lambda>u. u\<lparr>u_roomId := Some roomCode\<rparr>) st2
                         in Some (st3,
                              Emit sock (RoomCreated roomCode 1 False None)
                              # sendPlayersListToAdmin st3 room))))"

text \<open>
  \<^verbatim>\<open>room:join\<close>. \<open>now\<close> is \<^verbatim>\<open>Date.now()\<close> and \<open>rnd\<close> is
  \<^verbatim>\<open>Math.random().toString(36).substr(2, 9)\<close>, the two parts of a generated player id.
\<close>

definition existingNames :: "room \<Rightarrow> string option \<Rightarrow> string list" where
  "existingNames room playerSessionId =
     foldl (\<lambda>names (pid, pd).
              if Some pid \<noteq> playerSessionId then set_add names (toLowerCase (p_username pd))
              else names)
       [] (r_playerData room)"

definition actualPlayerIdOf :: "room \<Rightarrow> string option \<Rightarrow> nat \<Rightarrow> string \<Rightarrow> string" where
  "actualPlayerIdOf room playerSessionId now rnd =
     (case playerSessionId of
        None \<Rightarrow> ''player_'' @ show_nat now @ ''_'' @ rnd
      | Some pid \<Rightarrow>
          if pid = [] \<or> \<not> map_has (r_playerData room) pid
          then ''player_'' @ show_nat now @ ''_'' @ rnd
          else pid)"

definition roomJoin ::
  "string \<Rightarrow> string option \<Rightarrow> string option \<Rightarrow> string option \<Rightarrow> nat \<Rightarrow> string \<Rightarrow> state
     \<Rightarrow> state \<times> out list" where
  "roomJoin sock roomId playerName playerSessionId now rnd st =
     (case lookupRoom st roomId of
        None \<Rightarrow> (st, [Emit sock (Error RoomNotFound)])
      | Some (rid, ra) \<Rightarrow>
          (case playerName of
             None \<Rightarrow> (st, [Emit sock (Error PleaseEnterYourName)])
           | Some name \<Rightarrow>
               if name = [] \<or> length (trim name) = 0
               then (st, [Emit sock (Error PleaseEnterYourName)])
               else
                 let trimmedName = trim name;
                     room = roomObjs st ra
                 in if set_has (existingNames room playerSessionId) (toLowerCase trimmedName)
                    then (st, [Emit sock (Error NameTaken)])
                    else
                      let actualPlayerId = actualPlayerIdOf room playerSessionId now rnd;
                          playerData =
                            (case map_get (r_playerData room) actualPlayerId of
                               Some pd \<Rightarrow> pd\<lparr>p_username := trimmedName, p_socketId := Some sock\<rparr>
                             | None \<Rightarrow> \<lparr>p_username = trimmedName, p_bingoCard = None,
                                         p_socketId = Some sock\<rparr>);
                          st1 = updRoom ra (\<lambda>r. r\<lparr>r_playerData :=
                                  map_set (r_playerData r) actualPlayerId playerData\<rparr>) st;
                          ua = (case users st1 sock of Some a \<Rightarrow> a | None \<Rightarrow> userNext st1);
                          st2 = (case users st1 sock of
                                   Some a \<Rightarrow> st1
                                 | None \<Rightarrow>
                                     st1\<lparr>userObjs := (userObjs st1)(ua :=
                                            \<lparr>u_userId = sock, u_username = trimmedName,
                                             u_isAdmin = False, u_roomId = None, u_bingoCard = None,
                                             u_playerId = Some actualPlayerId\<rparr>),
                                          userNext := Suc ua\<rparr>);
                          st3 = updUser ua (\<lambda>u. u\<lparr>u_username := trimmedName, u_roomId := Some rid,
                                                     u_playerId := Some actualPlayerId\<rparr>) st2;
                          st4 = st3\<lparr>users := (users st3)(sock \<mapsto> ua)\<rparr>;
                          st5 = updRoom ra (\<lambda>r. r\<lparr>r_players := set_add (r_players r) sock\<rparr>) st4;
                          room5 = roomObjs st5 ra;
                          playerCount = length (r_players room5)
                      in (st5,
                          [Emit sock (RoomJoined rid playerCount (u_isAdmin (userObjs st5 ua))
                                        (r_drawnNumbers room5) actualPlayerId trimmedName
                                        (p_bingoCard playerData)),
                           Broadcast (Some rid) (PlayerJoined playerCount actualPlayerId trimmedName)]
                          @ sendPlayersListToAdmin st5 room5)))"

text \<open>
  The row scan of \<^verbatim>\<open>checkPlayersForCompletedRows(room)\<close>. \<open>checkCardRows\<close> is the inner
  \<^verbatim>\<open>forEach((row, rowIndex) => ...)\<close> over one player's card, from row index \<open>i\<close>
  on; it carries the room's \<^verbatim>\<open>completedRows\<close> set and the local \<^verbatim>\<open>completedRows\<close>
  array. The key of a row is \<^verbatim>\<open>`${playerId}_row_${rowIndex}`\<close>.
\<close>

definition rowKey :: "string \<Rightarrow> nat \<Rightarrow> string" where
  "rowKey playerId rowIndex = playerId @ ''_row_'' @ show_nat rowIndex"

fun checkCardRows ::
  "string \<Rightarrow> string \<Rightarrow> int list \<Rightarrow> card \<Rightarrow> nat \<Rightarrow> string list \<times> completedRow list
     \<Rightarrow> string list \<times> completedRow list" where
  "checkCardRows playerId name drawn [] i acc = acc"
| "checkCardRows playerId name drawn (row # rest) i (notified, completedRows) =
     checkCardRows playerId name drawn rest (Suc i)
       (case checkRowComplete row drawn of
          None \<Rightarrow> (notified, completedRows)
        | Some completedNumbers \<Rightarrow>
            if \<not> set_has notified (rowKey playerId i)
            then (set_add notified (rowKey playerId i),
                  completedRows @ [\<lparr>c_playerId = playerId, c_playerName = name,
                                     c_rowNumber = i + 1, c_numbers = completedNumbers\<rparr>])
            else (notified, completedRows))"

definition checkPlayer ::
  "int list \<Rightarrow> string list \<times> completedRow list \<Rightarrow> string \<times> playerData
     \<Rightarrow> string list \<times> completedRow list" where
  "checkPlayer drawn acc entry =
     (case entry of (playerId, pd) \<Rightarrow>
        (case p_bingoCard pd of
           None \<Rightarrow> acc
         | Some bingoCard \<Rightarrow>
             if length bingoCard = 0 then acc
             else checkCardRows playerId (p_username pd) drawn bingoCard 0 acc))"

definition checkPlayersForCompletedRows :: "room \<Rightarrow> room \<times> completedRow list" where
  "checkPlayersForCompletedRows room =
     (case foldl (checkPlayer (r_drawnNumbers room)) (r_completedRows room, []) (r_playerData room) of
        (notified, completedRows) \<Rightarrow> (room\<lparr>r_completedRows := notified\<rparr>, completedRows))"

text \<open>\<^verbatim>\<open>player:bingoCard\<close>. \<open>orElse a b\<close> is \<^verbatim>\<open>a || b\<close> for a string \<open>b\<close>.\<close>

fun orElse :: "string option \<Rightarrow> string \<Rightarrow> string" where
  "orElse None b = b"
| "orElse (Some a) b = (if a = [] then b else a)"

definition bingoCardHandler ::
  "string \<Rightarrow> string option \<Rightarrow> card option \<Rightarrow> string option \<Rightarrow> state \<Rightarrow> state \<times> out list" where
  "bingoCardHandler sock roomId bingoCard playerId st =
     (case users st sock of
        None \<Rightarrow> (st, [Emit sock (Error InvalidRequest)])
      | Some ua \<Rightarrow>
          (case lookupRoom st roomId of
             None \<Rightarrow> (st, [Emit sock (Error InvalidRequest)])
           | Some (rid, ra) \<Rightarrow>
               if \<not> set_has (r_players (roomObjs st ra)) sock
               then (st, [Emit sock (Error InvalidRequest)])
               else
                 let st1 = updUser ua (\<lambda>u. u\<lparr>u_bingoCard := bingoCard\<rparr>) st;
                     user = userObjs st1 ua;
                     actualPlayerId = (if truthy playerId then playerId else u_playerId user);
                     st2 = (case actualPlayerId of
                              None \<Rightarrow> st1
                            | Some pid \<Rightarrow>
                                if pid = [] then st1
                                else
                                  (case map_get (r_playerData (roomObjs st1 ra)) pid of
                                     Some pd \<Rightarrow>
                                       updRoom ra (\<lambda>r. r\<lparr>r_playerData :=
                                         map_set (r_playerData r) pid (pd\<lparr>p_bingoCard := bingoCard\<rparr>)\<rparr>) st1
                                   | None \<Rightarrow>
                                       updRoom ra (\<lambda>r. r\<lparr>r_playerData :=
                                         map_set (r_playerData r) pid
                                           \<lparr>p_username = u_username user, p_bingoCard = bingoCard,
                                            p_socketId = Some sock\<rparr>\<rparr>) st1));
                     room = roomObjs st2 ra;
                     adminSock = orElse (r_adminSocketId room) (r_adminId room)
                 in (st2,
                     if adminSock \<in> sockets st2
                     then [Emit adminSock
                             (PlayerBingoCard (orElse actualPlayerId sock) (u_username user) bingoCard)]
                     else [])))"

text \<open>
  \<^verbatim>\<open>game:drawNumber\<close>. The loop
  \<^verbatim>\<open>do { number = Math.floor(Math.random() * 90) + 1 } while (drawnNumbers.has(number))\<close>
  is \<open>pickNumber\<close> over the values of \<^verbatim>\<open>Math.floor(Math.random() * 90)\<close> that the
  successive rounds read; it has not returned (\<open>None\<close>) when every value supplied gives
  a number already drawn. The timer set at the end keeps \<^verbatim>\<open>room\<close> and \<^verbatim>\<open>user\<close>.
\<close>

fun pickNumber :: "int list \<Rightarrow> nat list \<Rightarrow> int option" where
  "pickNumber drawn [] = None"
| "pickNumber drawn (k # rest) =
     (let number = int k + 1
      in if set_has drawn number then pickNumber drawn rest else Some number)"

definition drawNumber :: "string \<Rightarrow> nat list \<Rightarrow> int \<Rightarrow> state \<Rightarrow> (state \<times> out list) option" where
  "drawNumber sock samples now st =
     (case users st sock of
        None \<Rightarrow> Some (st, [Emit sock (Error OnlyRoomAdminCanDraw)])
      | Some ua \<Rightarrow>
          let user = userObjs st ua
          in if \<not> u_isAdmin user \<or> \<not> truthy (u_roomId user)
             then Some (st, [Emit sock (Error OnlyRoomAdminCanDraw)])
             else
               (case lookupRoom st (u_roomId user) of
                  None \<Rightarrow> Some (st, [Emit sock (Error RoomNotFound)])
                | Some (rid, ra) \<Rightarrow>
                    if r_gameOver (roomObjs st ra)
                    then Some (st, [Emit sock (Error GameIsOver)])
                    else if length (r_drawnNumbers (roomObjs st ra)) \<ge> 90
                    then Some (st, [Emit sock (Error AllNumbersDrawn)])
                    else
                      (case pickNumber (r_drawnNumbers (roomObjs st ra)) samples of
                         None \<Rightarrow> None
                       | Some number \<Rightarrow>
                           let st1 = updRoom ra (\<lambda>r. r\<lparr>r_drawnNumbers :=
                                       set_add (r_drawnNumbers r) number\<rparr>) st;
                               startTime = now + 500;
                               st2 = st1\<lparr>timers := timers st1 @ [(ra, ua)]\<rparr>
                           in Some (st2,
                                [Broadcast (u_roomId user)
                                   (NumberDrawn number startTime
                                      (r_drawnNumbers (roomObjs st1 ra)))]))))"

text \<open>
  The body of the timer that \<^verbatim>\<open>game:drawNumber\<close> sets, run for the room and the user
  its closure holds. \<open>storeWinnerInfo\<close> is the \<^verbatim>\<open>if (!room.winnerInfo)\<close> block inside
  the \<^verbatim>\<open>forEach\<close>; \<open>rowCompletedEvent\<close> is the emit of the same round.
\<close>

definition storeWinnerInfo :: "room \<Rightarrow> completedRow \<Rightarrow> room" where
  "storeWinnerInfo room completedRow =
     (if r_winnerInfo room = None
      then room\<lparr>r_winnerInfo := Some
             \<lparr>w_playerId = c_playerId completedRow,
              w_playerName = c_playerName completedRow,
              w_rowNumber = c_rowNumber completedRow,
              w_numbers = c_numbers completedRow,
              w_bingoCard = (case map_get (r_playerData room) (c_playerId completedRow) of
                               Some pd \<Rightarrow> p_bingoCard pd
                             | None \<Rightarrow> None)\<rparr>\<rparr>
      else room)"

definition rowCompletedEvent :: "string option \<Rightarrow> completedRow \<Rightarrow> out" where
  "rowCompletedEvent roomId completedRow =
     Broadcast roomId (RowCompleted (c_playerName completedRow) (c_rowNumber completedRow)
                         (c_numbers completedRow))"

definition winCheck :: "nat \<Rightarrow> nat \<Rightarrow> state \<Rightarrow> state \<times> out list" where
  "winCheck ra ua st =
     (case checkPlayersForCompletedRows (roomObjs st ra) of
        (room1, completedRows) \<Rightarrow>
          (case completedRows of
             [] \<Rightarrow> (st\<lparr>roomObjs := (roomObjs st)(ra := room1)\<rparr>, [])
           | first # _ \<Rightarrow>
               let room2 = (if \<not> r_gameOver room1
                            then room1\<lparr>r_gameOver := True, r_winner := Some (c_playerName first)\<rparr>
                            else room1);
                   room3 = foldl storeWinnerInfo room2 completedRows
               in (st\<lparr>roomObjs := (roomObjs st)(ra := room3)\<rparr>,
                   map (rowCompletedEvent (u_roomId (userObjs st ua))) completedRows)))"

text \<open>The oldest pending timer fires.\<close>

definition timerFires :: "state \<Rightarrow> state \<times> out list" where
  "timerFires st =
     (case timers st of
        [] \<Rightarrow> (st, [])
      | (ra, ua) # rest \<Rightarrow> winCheck ra ua (st\<lparr>timers := rest\<rparr>))"

text \<open>
  \<^verbatim>\<open>room:close\<close>. \<open>archive\<close> is the call of \<^verbatim>\<open>addRoomToHistory\<close> with the summary
  of the room; \<open>now\<close> is \<^verbatim>\<open>new Date()\<close>.
\<close>

definition summary :: "room \<Rightarrow> winnerInfo \<Rightarrow> int \<Rightarrow> historyEntry" where
  "summary room w now =
     \<lparr>h_roomId = r_roomId room, h_createdAt = r_createdAt room, h_closedAt = now,
      h_winner = w_playerName w, h_winnerRowNumber = w_rowNumber w,
      h_winnerNumbers = w_numbers w, h_winnerBingoCard = w_bingoCard w,
      h_totalPlayers = length (r_playerData room),
      h_totalNumbersDrawn = length (r_drawnNumbers room)\<rparr>"

definition archive :: "config \<Rightarrow> bool \<Rightarrow> room \<Rightarrow> winnerInfo \<Rightarrow> int \<Rightarrow> state \<Rightarrow> state" where
  "archive cfg fileTooBig room w now st =
     st\<lparr>roomHistory := addRoomToHistory (cfg_MAX_HISTORY_SIZE cfg) fileTooBig
                          (summary room w now) (roomHistory st)\<rparr>"

definition roomClose ::
  "config \<Rightarrow> string \<Rightarrow> string option \<Rightarrow> int \<Rightarrow> bool \<Rightarrow> state \<Rightarrow> state \<times> out list" where
  "roomClose cfg sock roomId now fileTooBig st =
     (case lookupRoom st roomId of
        None \<Rightarrow> (st, [Emit sock (Error RoomNotFound)])
      | Some (rid, ra) \<Rightarrow>
          let room = roomObjs st ra
          in if (case users st sock of
                   None \<Rightarrow> False
                 | Some ua \<Rightarrow> u_isAdmin (userObjs st ua) \<and> r_adminId room = u_userId (userObjs st ua))
             then
               let st1 = (case r_winnerInfo room of
                            None \<Rightarrow> st
                          | Some w \<Rightarrow> if r_gameOver room then archive cfg fileTooBig room w now st else st)
               in (st1\<lparr>rooms := (rooms st1)(rid := None)\<rparr>,
                   [Broadcast (Some rid) (RoomClosed ClosedByAdmin)])
             else if r_gameOver room
             then
               let st1 = (case r_winnerInfo room of
                            None \<Rightarrow> st
                          | Some w \<Rightarrow> archive cfg fileTooBig room w now st)
               in (st1\<lparr>rooms := (rooms st1)(rid := None)\<rparr>,
                   [Broadcast (Some rid) (RoomClosed ClosedAfterGameOver)])
             else (st, []))"

text \<open>
  \<^verbatim>\<open>disconnect\<close>. The socket has left \<^verbatim>\<open>io.sockets.sockets\<close> when the handler runs.
\<close>

definition disconnect :: "string \<Rightarrow> state \<Rightarrow> state \<times> out list" where
  "disconnect sock st0 =
     (let st = st0\<lparr>sockets := sockets st0 - {sock}\<rparr>;
          res =
            (case users st sock of
               None \<Rightarrow> (st, [])
             | Some ua \<Rightarrow>
                 let user = userObjs st ua
                 in (case (if truthy (u_roomId user) then lookupRoom st (u_roomId user) else None) of
                       None \<Rightarrow> (st, [])
                     | Some (rid, ra) \<Rightarrow>
                         let st1 = updRoom ra (\<lambda>r. r\<lparr>r_players := set_delete (r_players r) sock\<rparr>) st;
                             room = roomObjs st1 ra
                         in if u_isAdmin user
                               \<and> (r_adminSocketId room = Some sock \<or> r_adminId room = sock)
                            then (updRoom ra (\<lambda>r. r\<lparr>r_adminSocketId := None\<rparr>) st1, [])
                            else
                              (case u_playerId user of
                                 None \<Rightarrow> (st1, [])
                               | Some pid \<Rightarrow>
                                   if pid = [] then (st1, [])
                                   else
                                     let st2 = (case map_get (r_playerData room) pid of
                                                  None \<Rightarrow> st1
                                                | Some pd \<Rightarrow>
                                                    updRoom ra (\<lambda>r. r\<lparr>r_playerData :=
                                                      map_set (r_playerData r) pid
                                                        (pd\<lparr>p_socketId := None\<rparr>)\<rparr>) st1);
                                         room2 = roomObjs st2 ra
                                     in (st2,
                                         Broadcast (u_roomId user)
                                           (PlayerLeft (length (r_players room2)) (u_playerId user)
                                              (u_username user))
                                         # sendPlayersListToAdmin st2 room2))))
      in (case res of (st3, outs) \<Rightarrow> (st3\<lparr>users := (users st3)(sock := None)\<rparr>, outs)))"

section \<open>Runs of the server\<close>

text \<open>
  What the server reacts to: a connection, the six inbound events of a socket with
  their payloads and the values the handler reads from the clock, the random generator
  and the disk, a pending win-check timer that fires, and a disconnect.
\<close>

datatype event =
    OnConnection string
  | OnAdminLogin string string string
  | OnRoomCreate string "string option" "nat list list" int
  | OnRoomJoin string "string option" "string option" "string option" nat string
  | OnBingoCard string "string option" "card option" "string option"
  | OnDrawNumber string "nat list" int
  | OnTimer
  | OnRoomClose string "string option" int bool
  | OnDisconnect string

fun step :: "config \<Rightarrow> event \<Rightarrow> state \<Rightarrow> (state \<times> out list) option" where
  "step cfg (OnConnection sock) st = Some (connection sock st)"
| "step cfg (OnAdminLogin sock username password) st = Some (adminLogin cfg sock username password st)"
| "step cfg (OnRoomCreate sock existingRoomId codeSamples now) st =
     roomCreate sock existingRoomId codeSamples now st"
| "step cfg (OnRoomJoin sock roomId playerName playerSessionId now rnd) st =
     Some (roomJoin sock roomId playerName playerSessionId now rnd st)"
| "step cfg (OnBingoCard sock roomId bingoCard playerId) st =
     Some (bingoCardHandler sock roomId bingoCard playerId st)"
| "step cfg (OnDrawNumber sock samples now) st = drawNumber sock samples now st"
| "step cfg OnTimer st = Some (timerFires st)"
| "step cfg (OnRoomClose sock roomId now fileTooBig) st = Some (roomClose cfg sock roomId now fileTooBig st)"
| "step cfg (OnDisconnect sock) st = Some (disconnect sock st)"

text \<open>A run: the events one after the other; \<open>None\<close> when a handler's loop did not
  return. The result is the last state with all the events emitted.\<close>

fun run :: "config \<Rightarrow> event list \<Rightarrow> state \<Rightarrow> (state \<times> out list) option" where
  "run cfg [] st = Some (st, [])"
| "run cfg (e # es) st =
     (case step cfg e st of
        None \<Rightarrow> None
      | Some (st1, outs1) \<Rightarrow>
          (case run cfg es st1 of
             None \<Rightarrow> None
           | Some (st2, outs2) \<Rightarrow> Some (st2, outs1 @ outs2)))"

text \<open>
  What the environment guarantees about an event: a socket id is not the empty string,
  \<^verbatim>\<open>Math.floor(Math.random() * 36)\<close> is below 36 and is read six times for a room
  code, and \<^verbatim>\<open>Math.floor(Math.random() * 90)\<close> is below 90.
\<close>

fun wf_event :: "event \<Rightarrow> bool" where
  "wf_event (OnConnection sock) = (sock \<noteq> [])"
| "wf_event (OnAdminLogin sock username password) = (sock \<noteq> [])"
| "wf_event (OnRoomCreate sock existingRoomId codeSamples now) =
     (sock \<noteq> [] \<and> list_all (\<lambda>rs. length rs = 6 \<and> list_all (\<lambda>r. r < 36) rs) codeSamples)"
| "wf_event (OnRoomJoin sock roomId playerName playerSessionId now rnd) = (sock \<noteq> [])"
| "wf_event (OnBingoCard sock roomId bingoCard playerId) = (sock \<noteq> [])"
| "wf_event (OnDrawNumber sock samples now) = (sock \<noteq> [] \<and> list_all (\<lambda>k. k < 90) samples)"
| "wf_event OnTimer = True"
| "wf_event (OnRoomClose sock roomId now fileTooBig) = (sock \<noteq> [])"
| "wf_event (OnDisconnect sock) = (sock \<noteq> [])"

text \<open>The states the server can be in: those a run of well-formed events reaches from
  the start, whatever history was loaded.\<close>

inductive reachable :: "config \<Rightarrow> state \<Rightarrow> bool" for cfg :: config where
  reachable_init: "reachable cfg (init h)"
| reachable_step: "reachable cfg st \<Longrightarrow> wf_event e \<Longrightarrow> step cfg e st = Some (st', outs)
                    \<Longrightarrow> reachable cfg st'"

text \<open>
  The completions that the win check of an event collects: for a timer that fires, the
  room it checks and the local \<^verbatim>\<open>completedRows\<close> array of that pass; nothing for any
  other event.
\<close>

definition collectedAt :: "event \<Rightarrow> state \<Rightarrow> (nat \<times> completedRow) list" where
  "collectedAt e st =
     (case e of
        OnTimer \<Rightarrow>
          (case timers st of
             [] \<Rightarrow> []
           | (ra, ua) # rest \<Rightarrow> map (\<lambda>c. (ra, c)) (snd (checkPlayersForCompletedRows (roomObjs st ra))))
      | _ \<Rightarrow> [])"

fun collected :: "config \<Rightarrow> event list \<Rightarrow> state \<Rightarrow> (nat \<times> completedRow) list" where
  "collected cfg [] st = []"
| "collected cfg (e # es) st =
     collectedAt e st @ (case step cfg e st of None \<Rightarrow> [] | Some (st1, outs1) \<Rightarrow> collected cfg es st1)"

section \<open>Notions used in the statements\<close>

text \<open>The fields of a room that the draw and the win check own.\<close>

definition gameFields :: "room \<Rightarrow> int list \<times> bool \<times> string list" where
  "gameFields r = (r_drawnNumbers r, r_gameOver r, r_completedRows r)"

text \<open>The key under which a collected completion was added to the room's
  \<^verbatim>\<open>completedRows\<close> set: its \<^verbatim>\<open>rowNumber\<close> is the row index plus one.\<close>

definition completedKey :: "completedRow \<Rightarrow> string" where
  "completedKey c = rowKey (c_playerId c) (c_rowNumber c - 1)"

text \<open>Every pending timer and every entry of \<^verbatim>\<open>rooms\<close> refers to a room object that
  was created.\<close>

definition alloc_ok :: "state \<Rightarrow> bool" where
  "alloc_ok st = ((\<forall>ra ua. (ra, ua) \<in> set (timers st) \<longrightarrow> ra < roomNext st)
                  \<and> (\<forall>rid ra. rooms st rid = Some ra \<longrightarrow> ra < roomNext st))"

text \<open>The payloads of the \<^verbatim>\<open>game:rowCompleted\<close> broadcasts among the emitted events,
  in order.\<close>

fun rowCompletedMsgs :: "out list \<Rightarrow> (string \<times> nat \<times> int list) list" where
  "rowCompletedMsgs [] = []"
| "rowCompletedMsgs (Broadcast roomId (RowCompleted playerName rowNumber numbers) # outs) =
     (playerName, rowNumber, numbers) # rowCompletedMsgs outs"
| "rowCompletedMsgs (_ # outs) = rowCompletedMsgs outs"

text \<open>What holds of the drawn numbers of every room: no duplicate, at most 90 of them,
  each between 1 and 90.\<close>

definition drawn_ok :: "int list \<Rightarrow> bool" where
  "drawn_ok drawn = (distinct drawn \<and> length drawn \<le> 90 \<and> list_all (\<lambda>n. 1 \<le> n \<and> n \<le> 90) drawn)"

text \<open>Every room code in \<^verbatim>\<open>rooms\<close> has six characters, and in every room object the
  admin's socket id is not the empty string and the drawn numbers are as above.\<close>

definition rooms_ok :: "state \<Rightarrow> bool" where
  "rooms_ok st =
     ((\<forall>rid ra. rooms st rid = Some ra \<longrightarrow> length rid = 6)
      \<and> (\<forall>ra. ra < roomNext st \<longrightarrow> r_adminSocketId (roomObjs st ra) \<noteq> Some []
                                  \<and> drawn_ok (r_drawnNumbers (roomObjs st ra))))"

text \<open>The user object that \<^verbatim>\<open>users\<close> holds for a socket was created for that socket:
  its \<^verbatim>\<open>userId\<close> is the socket's id.\<close>

definition users_ok :: "state \<Rightarrow> bool" where
  "users_ok st =
     (\<forall>sock ua. users st sock = Some ua \<longrightarrow> ua < userNext st \<and> u_userId (userObjs st ua) = sock)"

section \<open>Scenarios\<close>

text \<open>
  A configuration and a game, for the concrete instances below: the admin (socket
  \<open>s1\<close>) logs in and creates the room \<open>AB12CD\<close>; Sam (socket \<open>s2\<close>) joins and
  sends a card whose second row is 5, 12, 23, 41, 67; the admin draws 5, 12 and 23 and
  the three win checks find nothing; the admin draws 41 and 67 before the next check,
  so two checks are pending when the row is complete.
\<close>

definition demoConfig :: config where
  "demoConfig =
     \<lparr>cfg_adminUsername = ''admin'', cfg_adminPassword = ''admin123'',
      cfg_MAX_HISTORY_SIZE = 1000\<rparr>"

definition openingA :: "event list" where
  "openingA =
     [OnConnection ''s1'', OnAdminLogin ''s1'' ''admin'' ''admin123'',
      OnRoomCreate ''s1'' None [[0, 1, 27, 28, 2, 3]] 1000,
      OnConnection ''s2'', OnRoomJoin ''s2'' (Some ''AB12CD'') (Some ''Sam'') None 5 ''x'',
      OnBingoCard ''s2'' (Some ''AB12CD'')
        (Some [Some [Some 1, None, Some 2], Some [Some 5, Some 12, Some 23, Some 41, Some 67], None])
        None,
      OnDrawNumber ''s1'' [4] 2000, OnDrawNumber ''s1'' [4, 11] 2100, OnDrawNumber ''s1'' [22] 2200,
      OnTimer, OnTimer, OnTimer]"

definition gameA :: "event list" where
  "gameA =
     openingA @ [OnDrawNumber ''s1'' [40] 4000, OnDrawNumber ''s1'' [66] 4100, OnTimer, OnTimer]"

definition midGameA :: state where
  "midGameA = fst (the (run demoConfig openingA (init [])))"

definition afterGameA :: state where
  "afterGameA = fst (the (run demoConfig gameA (init [])))"

text \<open>What follows the game: the admin and Sam ask for a draw, Sam sends the winning
  row again as a new card, and a timer event finds no timer pending.\<close>

definition laterA :: "event list" where
  "laterA =
     [OnDrawNumber ''s1'' [7] 5000, OnDrawNumber ''s2'' [7] 5000,
      OnBingoCard ''s2'' (Some ''AB12CD'') (Some [Some [Some 5, Some 12, Some 23, Some 41, Some 67]])
        None,
      OnTimer]"

text \<open>
  The admin leaves in the middle of the game and logs in again on a new socket \<open>s3\<close>;
  then \<^verbatim>\<open>room:create\<close> with the room's code binds the room to \<open>s3\<close>.
\<close>

definition adminReturnsA :: "event list" where
  "adminReturnsA =
     [OnDisconnect ''s1'', OnConnection ''s3'', OnAdminLogin ''s3'' ''admin'' ''admin123'']"

definition adminGoneA :: state where
  "adminGoneA = fst (the (run demoConfig adminReturnsA midGameA))"

definition reboundA :: state where
  "reboundA = fst (the (roomCreate ''s3'' (Some ''AB12CD'') [] 7000 adminGoneA))"


text \<open>
  A room in which all 90 numbers are drawn: Sam's card has the row 86 to 90; the admin
  draws 1, 2, ..., 90 in this order and the win check of each draw runs before the next
  draw, except that the check of the last draw is still pending.
\<close>

definition fullA :: "event list" where
  "fullA =
     [OnConnection ''s1'', OnAdminLogin ''s1'' ''admin'' ''admin123'',
      OnRoomCreate ''s1'' None [[0, 1, 27, 28, 2, 3]] 1000,
      OnConnection ''s2'', OnRoomJoin ''s2'' (Some ''AB12CD'') (Some ''Sam'') None 5 ''x'',
      OnBingoCard ''s2'' (Some ''AB12CD'') (Some [Some [Some 86, Some 87, Some 88, Some 89, Some 90]])
        None]
     @ concat (map (\<lambda>k. [OnDrawNumber ''s1'' [k] 2000, OnTimer]) [0..<89])
     @ [OnDrawNumber ''s1'' [89] 2000]"

definition afterFullA :: state where
  "afterFullA = fst (the (run demoConfig fullA (init [])))"

definition overFullA :: state where
  "overFullA = fst (timerFires afterFullA)"

text \<open>
  Two admins: the first (socket \<open>a1\<close>) creates the room \<open>AB12CD\<close> and stays; the second
  (socket \<open>a2\<close>) logs in with the same credentials and joins that room with
  \<^verbatim>\<open>room:join\<close> under the name Eve.
\<close>

definition gameB :: "event list" where
  "gameB =
     [OnConnection ''a1'', OnAdminLogin ''a1'' ''admin'' ''admin123'',
      OnRoomCreate ''a1'' None [[0, 1, 27, 28, 2, 3]] 1000,
      OnConnection ''a2'', OnAdminLogin ''a2'' ''admin'' ''admin123'',
      OnRoomJoin ''a2'' (Some ''AB12CD'') (Some ''Eve'') None 7 ''y'']"

definition afterGameB :: state where
  "afterGameB = fst (the (run demoConfig gameB (init [])))"





section \<open>Properties of the row check\<close>

lemma set_nonNull: "set (nonNull r) = {n. Some n \<in> set r}"
  by (induction r rule: nonNull.induct) auto

lemma nonNull_all_blank: "list_all (\<lambda>s. s = None) r \<Longrightarrow> nonNull r = []"
  by (induction r rule: nonNull.induct) auto

text \<open>
  C1. The win detector reports a row complete exactly when every non-blank slot of the
  row is among the drawn numbers and the row has exactly five non-blank slots; what it
  reports is the list of those five numbers. Hence a row with one of its numbers not
  drawn is not reported, and neither is a missing, an empty or an all-blank row.
\<close>

theorem checkRowComplete_iff:
  "(checkRowComplete (Some r) drawnNumbers \<noteq> None \<longleftrightarrow>
      (\<forall>n. Some n \<in> set r \<longrightarrow> n \<in> set drawnNumbers) \<and> length (nonNull r) = 5)
   \<and> (checkRowComplete (Some r) drawnNumbers \<noteq> None \<longrightarrow>
      checkRowComplete (Some r) drawnNumbers = Some (nonNull r))
   \<and> (Some n \<in> set r \<and> n \<notin> set drawnNumbers \<longrightarrow> checkRowComplete (Some r) drawnNumbers = None)
   \<and> (list_all (\<lambda>s. s = None) r \<longrightarrow> checkRowComplete (Some r) drawnNumbers = None)
   \<and> checkRowComplete None drawnNumbers = None"
proof -
  have marked: "list_all (\<lambda>num. set_has drawnNumbers num) (nonNull r)
      \<longleftrightarrow> (\<forall>n. Some n \<in> set r \<longrightarrow> n \<in> set drawnNumbers)"
    by (simp add: list_all_iff set_has_def set_nonNull)
  have five: "length (nonNull r) = 5 \<Longrightarrow> r \<noteq> []"
    by auto
  have blank: "list_all (\<lambda>s. s = None) r \<Longrightarrow> length (nonNull r) \<noteq> 5"
    by (simp add: nonNull_all_blank)
  show ?thesis
    using marked five blank
    by (auto simp: checkRowComplete_def Let_def)
qed

theorem checkRowComplete_iff_witness:
  "checkRowComplete (Some [Some 5, None, Some 12, Some 23, None, Some 41, Some 67]) [41, 5, 67, 9, 12, 23]
     = Some [5, 12, 23, 41, 67]
   \<and> checkRowComplete (Some [Some 5, None, Some 12, Some 23, None, Some 41, Some 67]) [41, 5, 9, 12, 23]
     = None
   \<and> checkRowComplete (Some [None, None, None]) [41, 5, 9, 12, 23] = None"
  using checkRowComplete_iff [of "[Some 5, None, Some 12, Some 23, None, Some 41, Some 67]" "[41, 5, 67, 9, 12, 23]" 67]
    checkRowComplete_iff [of "[Some 5, None, Some 12, Some 23, None, Some 41, Some 67]" "[41, 5, 9, 12, 23]" 67]
    checkRowComplete_iff [of "[None, None, None]" "[41, 5, 9, 12, 23]" 0]
  by (simp add: checkRowComplete_def set_has_def)

section \<open>Properties of the history\<close>

lemma sorted_head_least:
  assumes "sort_key f xs = y # ys"
  shows "\<forall>x \<in> set ys. f y \<le> f x"
proof -
  have "sorted (map f (sort_key f xs))" by simp
  with assms show ?thesis by simp
qed

text \<open>
  C9. As long as the history file stays under its size limit: with
  \<^verbatim>\<open>MAX_HISTORY_SIZE = 2\<close>, appending to the empty history three summaries closed at
  \<open>t1 < t2 < t3\<close> leaves exactly the two records closed at \<open>t2\<close> and \<open>t3\<close>. In
  general, an append to a history below the maximum keeps every record, and an append to
  a history at the maximum leaves the list sorted by \<^verbatim>\<open>closedAt\<close> without its first
  record, which was closed no later than any record kept.
\<close>

theorem history_evicts_oldest:
  "(h_closedAt r1 < h_closedAt r2 \<and> h_closedAt r2 < h_closedAt r3 \<longrightarrow>
      addRoomToHistory 2 False r3 (addRoomToHistory 2 False r2 (addRoomToHistory 2 False r1 []))
        = [r2, r3])
   \<and> (int (length h) < maxSize \<longrightarrow> addRoomToHistory maxSize False r h = h @ [r])
   \<and> (int (length h) = maxSize \<longrightarrow>
        (\<exists>old. sort_key h_closedAt (h @ [r]) = old # addRoomToHistory maxSize False r h
             \<and> (\<forall>x \<in> set (addRoomToHistory maxSize False r h). h_closedAt old \<le> h_closedAt x)))"
proof (intro conjI impI)
  assume "h_closedAt r1 < h_closedAt r2 \<and> h_closedAt r2 < h_closedAt r3"
  then show "addRoomToHistory 2 False r3 (addRoomToHistory 2 False r2 (addRoomToHistory 2 False r1 []))
        = [r2, r3]"
    by (simp add: addRoomToHistory_def checkDiskSpaceAndCleanup_def cleanupOldRooms_def)
next
  assume "int (length h) < maxSize"
  then show "addRoomToHistory maxSize False r h = h @ [r]"
    by (simp add: addRoomToHistory_def checkDiskSpaceAndCleanup_def)
next
  assume full: "int (length h) = maxSize"
  obtain old ys where s: "sort_key h_closedAt (h @ [r]) = old # ys"
    by (cases "sort_key h_closedAt (h @ [r])") (auto dest: arg_cong [where f = length])
  from full have "addRoomToHistory maxSize False r h = drop 1 (sort_key h_closedAt (h @ [r]))"
    by (simp add: addRoomToHistory_def checkDiskSpaceAndCleanup_def cleanupOldRooms_def Let_def
             del: sort_key_simps)
  with s have eq: "addRoomToHistory maxSize False r h = ys" by simp
  from sorted_head_least [OF s] eq s
  show "\<exists>old. sort_key h_closedAt (h @ [r]) = old # addRoomToHistory maxSize False r h
             \<and> (\<forall>x \<in> set (addRoomToHistory maxSize False r h). h_closedAt old \<le> h_closedAt x)"
    by blast
qed

theorem history_evicts_oldest_witness:
  "addRoomToHistory 2 False
     \<lparr>h_roomId = ''CCCCCC'', h_createdAt = 25, h_closedAt = 30, h_winner = ''Ann'',
      h_winnerRowNumber = 1, h_winnerNumbers = [1, 2, 3, 4, 5], h_winnerBingoCard = None,
      h_totalPlayers = 2, h_totalNumbersDrawn = 9\<rparr>
     (addRoomToHistory 2 False
        \<lparr>h_roomId = ''BBBBBB'', h_createdAt = 15, h_closedAt = 20, h_winner = ''Bob'',
         h_winnerRowNumber = 2, h_winnerNumbers = [6, 7, 8, 9, 10], h_winnerBingoCard = None,
         h_totalPlayers = 1, h_totalNumbersDrawn = 30\<rparr>
        (addRoomToHistory 2 False
           \<lparr>h_roomId = ''AAAAAA'', h_createdAt = 5, h_closedAt = 10, h_winner = ''Sam'',
            h_winnerRowNumber = 3, h_winnerNumbers = [5, 12, 23, 41, 67], h_winnerBingoCard = None,
            h_totalPlayers = 3, h_totalNumbersDrawn = 12\<rparr>
           []))
   = [\<lparr>h_roomId = ''BBBBBB'', h_createdAt = 15, h_closedAt = 20, h_winner = ''Bob'',
       h_winnerRowNumber = 2, h_winnerNumbers = [6, 7, 8, 9, 10], h_winnerBingoCard = None,
       h_totalPlayers = 1, h_totalNumbersDrawn = 30\<rparr>,
      \<lparr>h_roomId = ''CCCCCC'', h_createdAt = 25, h_closedAt = 30, h_winner = ''Ann'',
       h_winnerRowNumber = 1, h_winnerNumbers = [1, 2, 3, 4, 5], h_winnerBingoCard = None,
       h_totalPlayers = 2, h_totalNumbersDrawn = 9\<rparr>]"
  by (rule history_evicts_oldest [THEN conjunct1, THEN mp]) simp

section \<open>How the handlers change a room\<close>

lemma set_set_add: "set (set_add xs x) = insert x (set xs)"
  by (auto simp: set_add_def set_has_def)

lemma distinct_set_add: "distinct xs \<Longrightarrow> distinct (set_add xs x)"
  by (auto simp: set_add_def set_has_def)

lemma updRoom_fields [simp]:
  "rooms (updRoom ra f st) = rooms st" "roomNext (updRoom ra f st) = roomNext st"
  "users (updRoom ra f st) = users st" "userObjs (updRoom ra f st) = userObjs st"
  "userNext (updRoom ra f st) = userNext st" "sockets (updRoom ra f st) = sockets st"
  "roomHistory (updRoom ra f st) = roomHistory st" "timers (updRoom ra f st) = timers st"
  "roomObjs (updRoom ra f st) = (roomObjs st)(ra := f (roomObjs st ra))"
  by (simp_all add: updRoom_def)

lemma updUser_fields [simp]:
  "rooms (updUser ua f st) = rooms st" "roomNext (updUser ua f st) = roomNext st"
  "users (updUser ua f st) = users st" "roomObjs (updUser ua f st) = roomObjs st"
  "userNext (updUser ua f st) = userNext st" "sockets (updUser ua f st) = sockets st"
  "roomHistory (updUser ua f st) = roomHistory st" "timers (updUser ua f st) = timers st"
  "userObjs (updUser ua f st) = (userObjs st)(ua := f (userObjs st ua))"
  by (simp_all add: updUser_def)

lemma connection_game: "connection sock st = (st', outs) \<Longrightarrow> roomObjs st' = roomObjs st \<and> roomNext st' = roomNext st"
  by (auto simp: connection_def)

lemma adminLogin_game: "adminLogin cfg sock u p st = (st', outs) \<Longrightarrow> roomObjs st' = roomObjs st \<and> roomNext st' = roomNext st"
  by (auto simp: adminLogin_def Let_def split: if_splits)

lemma roomCreate_game:
  "roomCreate sock ex cs now st = Some (st', outs) \<Longrightarrow> ra < roomNext st \<Longrightarrow>
     gameFields (roomObjs st' ra) = gameFields (roomObjs st ra)"
  by (auto simp: roomCreate_def Let_def gameFields_def split: option.splits if_splits prod.splits)

lemma roomJoin_game:
  "roomJoin sock rid name pid now rnd st = (st', outs) \<Longrightarrow>
     gameFields (roomObjs st' ra) = gameFields (roomObjs st ra) \<and> roomNext st' = roomNext st"
  by (auto simp: roomJoin_def Let_def gameFields_def split: option.splits if_splits prod.splits)

lemma bingoCard_game:
  "bingoCardHandler sock rid c pid st = (st', outs) \<Longrightarrow>
     gameFields (roomObjs st' ra) = gameFields (roomObjs st ra) \<and> roomNext st' = roomNext st"
  by (auto simp: bingoCardHandler_def Let_def gameFields_def split: option.splits if_splits prod.splits)

lemma roomClose_game:
  "roomClose cfg sock rid now big st = (st', outs) \<Longrightarrow> roomObjs st' = roomObjs st \<and> roomNext st' = roomNext st"
  by (auto simp: roomClose_def Let_def archive_def split: option.splits if_splits prod.splits)

lemma disconnect_game:
  "disconnect sock st = (st', outs) \<Longrightarrow>
     gameFields (roomObjs st' ra) = gameFields (roomObjs st ra) \<and> roomNext st' = roomNext st"
  by (auto simp: disconnect_def Let_def gameFields_def split: option.splits if_splits prod.splits)



lemma pickNumber_Some:
  "pickNumber drawn samples = Some n \<Longrightarrow> n \<notin> set drawn \<and> (\<exists>k \<in> set samples. n = int k + 1)"
  by (induction samples) (auto simp: set_has_def Let_def split: if_splits)

lemma drawNumber_cases:
  assumes "drawNumber sock samples now st = Some (st', outs)"
  shows "(st' = st \<and> (\<exists>e. outs = [Emit sock (Error e)]))
       \<or> (\<exists>ua rid ra n.
             users st sock = Some ua \<and> u_isAdmin (userObjs st ua)
           \<and> u_roomId (userObjs st ua) = Some rid \<and> rid \<noteq> [] \<and> rooms st rid = Some ra
           \<and> \<not> r_gameOver (roomObjs st ra) \<and> length (r_drawnNumbers (roomObjs st ra)) < 90
           \<and> pickNumber (r_drawnNumbers (roomObjs st ra)) samples = Some n
           \<and> st' = (updRoom ra (\<lambda>r. r\<lparr>r_drawnNumbers := r_drawnNumbers r @ [n]\<rparr>) st)
                      \<lparr>timers := timers st @ [(ra, ua)]\<rparr>
           \<and> outs = [Broadcast (Some rid) (NumberDrawn n (now + 500) (r_drawnNumbers (roomObjs st ra) @ [n]))])"
proof (cases "users st sock")
  case None
  with assms show ?thesis by (auto simp: drawNumber_def)
next
  case (Some ua)
  show ?thesis
  proof (cases "u_isAdmin (userObjs st ua) \<and> truthy (u_roomId (userObjs st ua))")
    case False
    with assms Some show ?thesis by (auto simp: drawNumber_def Let_def)
  next
    case True
    then obtain rid where rid: "u_roomId (userObjs st ua) = Some rid" "rid \<noteq> []"
      by (cases "u_roomId (userObjs st ua)") auto
    show ?thesis
    proof (cases "rooms st rid")
      case None
      with assms Some True rid show ?thesis by (auto simp: drawNumber_def Let_def lookupRoom_def)
    next
      case ra: (Some ra)
      show ?thesis
      proof (cases "r_gameOver (roomObjs st ra) \<or> length (r_drawnNumbers (roomObjs st ra)) \<ge> 90")
        case True
        with assms Some \<open>u_isAdmin (userObjs st ua) \<and> truthy (u_roomId (userObjs st ua))\<close> rid ra
        show ?thesis by (auto simp: drawNumber_def Let_def lookupRoom_def split: if_splits)
      next
        case False
        with assms Some \<open>u_isAdmin (userObjs st ua) \<and> truthy (u_roomId (userObjs st ua))\<close> rid ra
        obtain n where n: "pickNumber (r_drawnNumbers (roomObjs st ra)) samples = Some n"
          by (auto simp: drawNumber_def Let_def lookupRoom_def split: option.splits)
        then have fresh: "n \<notin> set (r_drawnNumbers (roomObjs st ra))"
          by (simp add: pickNumber_Some)
        from assms Some \<open>u_isAdmin (userObjs st ua) \<and> truthy (u_roomId (userObjs st ua))\<close> rid ra False n fresh
        show ?thesis
          by (auto simp: drawNumber_def Let_def lookupRoom_def set_add_def set_has_def updRoom_def)
      qed
    qed
  qed
qed

lemma checkCardRows_spec:
  "checkCardRows pid name drawn rows i (notified, out) = (notified', out') \<Longrightarrow>
     \<exists>new. out' = out @ new
         \<and> set notified' = set notified \<union> set (map completedKey new)
         \<and> distinct (map completedKey new)
         \<and> set (map completedKey new) \<inter> set notified = {}"
proof (induction rows arbitrary: i notified out)
  case Nil
  then show ?case by simp
next
  case (Cons row rows)
  show ?case
  proof (cases "checkRowComplete row drawn")
    case None
    with Cons.prems have "checkCardRows pid name drawn rows (Suc i) (notified, out) = (notified', out')"
      by simp
    from Cons.IH [OF this] show ?thesis .
  next
    case (Some nums)
    show ?thesis
    proof (cases "rowKey pid i \<in> set notified")
      case True
      with Some Cons.prems have "checkCardRows pid name drawn rows (Suc i) (notified, out) = (notified', out')"
        by (simp add: set_has_def)
      from Cons.IH [OF this] show ?thesis .
    next
      case False
      define c where "c = \<lparr>c_playerId = pid, c_playerName = name, c_rowNumber = i + 1, c_numbers = nums\<rparr>"
      have key: "completedKey c = rowKey pid i"
        by (simp add: completedKey_def c_def)
      from False Some Cons.prems
      have "checkCardRows pid name drawn rows (Suc i) (notified @ [rowKey pid i], out @ [c]) = (notified', out')"
        by (simp add: set_has_def set_add_def c_def)
      from Cons.IH [OF this] obtain new where new:
        "out' = (out @ [c]) @ new"
        "set notified' = set (notified @ [rowKey pid i]) \<union> set (map completedKey new)"
        "distinct (map completedKey new)"
        "set (map completedKey new) \<inter> set (notified @ [rowKey pid i]) = {}"
        by blast
      have "out' = out @ (c # new)" using new(1) by simp
      moreover have "set notified' = set notified \<union> set (map completedKey (c # new))"
        using new(2) key by auto
      moreover have "distinct (map completedKey (c # new))"
        using new(3,4) key by auto
      moreover have "set (map completedKey (c # new)) \<inter> set notified = {}"
        using new(4) key False by auto
      ultimately show ?thesis by blast
    qed
  qed
qed

lemma checkPlayer_spec:
  assumes "checkPlayer drawn (notified, out) entry = (notified', out')"
  shows "\<exists>new. out' = out @ new
         \<and> set notified' = set notified \<union> set (map completedKey new)
         \<and> distinct (map completedKey new)
         \<and> set (map completedKey new) \<inter> set notified = {}"
proof (cases entry)
  case (Pair pid pd)
  show ?thesis
  proof (cases "p_bingoCard pd")
    case None
    with assms Pair have "notified' = notified" "out' = out"
      by (simp_all add: checkPlayer_def)
    then show ?thesis by simp
  next
    case (Some bingoCard)
    show ?thesis
    proof (cases "length bingoCard = 0")
      case True
      with assms Pair Some have "notified' = notified" "out' = out"
        by (simp_all add: checkPlayer_def)
      then show ?thesis by simp
    next
      case False
      with assms Pair Some
      have "checkCardRows pid (p_username pd) drawn bingoCard 0 (notified, out) = (notified', out')"
        by (simp add: checkPlayer_def)
      then show ?thesis by (rule checkCardRows_spec)
    qed
  qed
qed

lemma foldl_checkPlayer_spec:
  "foldl (checkPlayer drawn) (notified, out) entries = (notified', out') \<Longrightarrow>
     \<exists>new. out' = out @ new
         \<and> set notified' = set notified \<union> set (map completedKey new)
         \<and> distinct (map completedKey new)
         \<and> set (map completedKey new) \<inter> set notified = {}"
proof (induction entries arbitrary: notified out)
  case Nil
  then show ?case by simp
next
  case (Cons entry entries)
  obtain n1 o1 where first: "checkPlayer drawn (notified, out) entry = (n1, o1)"
    by (cases "checkPlayer drawn (notified, out) entry") auto
  from checkPlayer_spec [OF first] obtain new1 where new1:
    "o1 = out @ new1" "set n1 = set notified \<union> set (map completedKey new1)"
    "distinct (map completedKey new1)" "set (map completedKey new1) \<inter> set notified = {}"
    by blast
  from Cons.prems first have "foldl (checkPlayer drawn) (n1, o1) entries = (notified', out')"
    by simp
  from Cons.IH [OF this] obtain new2 where new2:
    "out' = o1 @ new2" "set notified' = set n1 \<union> set (map completedKey new2)"
    "distinct (map completedKey new2)" "set (map completedKey new2) \<inter> set n1 = {}"
    by blast
  have "out' = out @ (new1 @ new2)" using new1(1) new2(1) by simp
  moreover have "set notified' = set notified \<union> set (map completedKey (new1 @ new2))"
    using new1(2) new2(2) by auto
  moreover have "distinct (map completedKey (new1 @ new2))"
    using new1(2,3) new2(3,4) by auto
  moreover have "set (map completedKey (new1 @ new2)) \<inter> set notified = {}"
    using new1(2,4) new2(4) by auto
  ultimately show ?case by blast
qed

lemma checkPlayersForCompletedRows_spec:
  assumes "checkPlayersForCompletedRows room = (room1, completedRows)"
  shows "room1 = room\<lparr>r_completedRows := r_completedRows room1\<rparr>"
    and "set (r_completedRows room1) = set (r_completedRows room) \<union> set (map completedKey completedRows)"
    and "distinct (map completedKey completedRows)"
    and "set (map completedKey completedRows) \<inter> set (r_completedRows room) = {}"
proof -
  obtain notified out where f:
    "foldl (checkPlayer (r_drawnNumbers room)) (r_completedRows room, []) (r_playerData room) = (notified, out)"
    by (cases "foldl (checkPlayer (r_drawnNumbers room)) (r_completedRows room, []) (r_playerData room)") auto
  with assms have eq: "room1 = room\<lparr>r_completedRows := notified\<rparr>" "completedRows = out"
    by (simp_all add: checkPlayersForCompletedRows_def)
  from foldl_checkPlayer_spec [OF f] eq
  show "room1 = room\<lparr>r_completedRows := r_completedRows room1\<rparr>"
    and "set (r_completedRows room1) = set (r_completedRows room) \<union> set (map completedKey completedRows)"
    and "distinct (map completedKey completedRows)"
    and "set (map completedKey completedRows) \<inter> set (r_completedRows room) = {}"
    by auto
qed

lemma foldl_storeWinnerInfo_fields:
  "r_drawnNumbers (foldl storeWinnerInfo room cs) = r_drawnNumbers room
   \<and> r_gameOver (foldl storeWinnerInfo room cs) = r_gameOver room
   \<and> r_completedRows (foldl storeWinnerInfo room cs) = r_completedRows room"
  by (induction cs arbitrary: room) (auto simp: storeWinnerInfo_def)

lemma winCheck_spec:
  assumes "winCheck ra ua st = (st', outs)"
    and "checkPlayersForCompletedRows (roomObjs st ra) = (room1, completedRows)"
  shows "outs = map (rowCompletedEvent (u_roomId (userObjs st ua))) completedRows"
    and "\<exists>room3. st' = st\<lparr>roomObjs := (roomObjs st)(ra := room3)\<rparr>
           \<and> r_drawnNumbers room3 = r_drawnNumbers (roomObjs st ra)
           \<and> r_completedRows room3 = r_completedRows room1
           \<and> (r_gameOver (roomObjs st ra) \<longrightarrow> r_gameOver room3)
           \<and> (completedRows \<noteq> [] \<longrightarrow> r_gameOver room3)"
proof -
  have r1: "r_drawnNumbers room1 = r_drawnNumbers (roomObjs st ra)"
    "r_gameOver room1 = r_gameOver (roomObjs st ra)"
    using checkPlayersForCompletedRows_spec(1) [OF assms(2)]
    by (metis room.select_convs(5) room.surjective room.update_convs(12),
        metis room.select_convs(7) room.surjective room.update_convs(12))
  show "outs = map (rowCompletedEvent (u_roomId (userObjs st ua))) completedRows"
    using assms by (cases completedRows) (auto simp: winCheck_def Let_def)
  show "\<exists>room3. st' = st\<lparr>roomObjs := (roomObjs st)(ra := room3)\<rparr>
           \<and> r_drawnNumbers room3 = r_drawnNumbers (roomObjs st ra)
           \<and> r_completedRows room3 = r_completedRows room1
           \<and> (r_gameOver (roomObjs st ra) \<longrightarrow> r_gameOver room3)
           \<and> (completedRows \<noteq> [] \<longrightarrow> r_gameOver room3)"
    using assms r1
    by (cases completedRows)
       (auto simp: winCheck_def Let_def foldl_storeWinnerInfo_fields storeWinnerInfo_def)
qed

lemma rowCompletedMsgs_append: "rowCompletedMsgs (xs @ ys) = rowCompletedMsgs xs @ rowCompletedMsgs ys"
  by (induction xs rule: rowCompletedMsgs.induct) auto

lemma rowCompletedMsgs_events:
  "rowCompletedMsgs (map (rowCompletedEvent tgt) cs)
     = map (\<lambda>c. (c_playerName c, c_rowNumber c, c_numbers c)) cs"
  by (induction cs) (auto simp: rowCompletedEvent_def)

lemma timerFires_spec:
  assumes "timerFires st = (st', outs)"
  shows "(timers st = [] \<and> st' = st \<and> outs = [])
       \<or> (\<exists>ra ua rest room1 completedRows room3.
             timers st = (ra, ua) # rest
           \<and> checkPlayersForCompletedRows (roomObjs st ra) = (room1, completedRows)
           \<and> outs = map (rowCompletedEvent (u_roomId (userObjs st ua))) completedRows
           \<and> st' = st\<lparr>timers := rest, roomObjs := (roomObjs st)(ra := room3)\<rparr>
           \<and> r_drawnNumbers room3 = r_drawnNumbers (roomObjs st ra)
           \<and> r_completedRows room3 = r_completedRows room1
           \<and> (r_gameOver (roomObjs st ra) \<longrightarrow> r_gameOver room3)
           \<and> (completedRows \<noteq> [] \<longrightarrow> r_gameOver room3))"
proof (cases "timers st")
  case Nil
  with assms show ?thesis by (simp add: timerFires_def)
next
  case (Cons t rest)
  obtain ra ua where t: "t = (ra, ua)" by (cases t) auto
  obtain room1 completedRows where
    chk: "checkPlayersForCompletedRows (roomObjs st ra) = (room1, completedRows)"
    by (cases "checkPlayersForCompletedRows (roomObjs st ra)") auto
  from assms Cons t have w: "winCheck ra ua (st\<lparr>timers := rest\<rparr>) = (st', outs)"
    by (simp add: timerFires_def)
  from chk have chk': "checkPlayersForCompletedRows (roomObjs (st\<lparr>timers := rest\<rparr>) ra) = (room1, completedRows)"
    by simp
  from winCheck_spec [OF w chk'] Cons t chk show ?thesis
    by auto
qed

lemma step_roomNext: "step cfg e st = Some (st', outs) \<Longrightarrow> roomNext st \<le> roomNext st'"
proof (cases e)
  case (OnRoomCreate sock ex cs now)
  assume "step cfg e st = Some (st', outs)"
  with OnRoomCreate show ?thesis
    by (auto simp: roomCreate_def Let_def split: option.splits if_splits prod.splits)
next
  case (OnDrawNumber sock samples now)
  assume "step cfg e st = Some (st', outs)"
  with OnDrawNumber show ?thesis
    by (auto dest!: drawNumber_cases)
next
  case OnTimer
  assume "step cfg e st = Some (st', outs)"
  with OnTimer show ?thesis
    by (auto dest!: timerFires_spec)
qed (auto dest: connection_game adminLogin_game roomJoin_game bingoCard_game roomClose_game disconnect_game)

lemma step_gameFields:
  assumes "step cfg e st = Some (st', outs)" and "ra < roomNext st"
  shows "(r_gameOver (roomObjs st ra) \<longrightarrow> r_gameOver (roomObjs st' ra))
       \<and> set (r_completedRows (roomObjs st ra)) \<subseteq> set (r_completedRows (roomObjs st' ra))"
proof (cases e)
  case (OnConnection sock)
  with assms show ?thesis by (auto dest: connection_game)
next
  case (OnAdminLogin sock u p)
  with assms show ?thesis by (auto dest: adminLogin_game)
next
  case (OnRoomCreate sock ex cs now)
  with assms have "gameFields (roomObjs st' ra) = gameFields (roomObjs st ra)"
    by (auto dest: roomCreate_game)
  then show ?thesis by (simp add: gameFields_def)
next
  case (OnRoomJoin sock rid name pid now rnd)
  with assms have "gameFields (roomObjs st' ra) = gameFields (roomObjs st ra)"
    by (auto dest: roomJoin_game)
  then show ?thesis by (simp add: gameFields_def)
next
  case (OnBingoCard sock rid c pid)
  with assms have "gameFields (roomObjs st' ra) = gameFields (roomObjs st ra)"
    by (auto dest: bingoCard_game)
  then show ?thesis by (simp add: gameFields_def)
next
  case (OnDrawNumber sock samples now)
  with assms show ?thesis by (auto dest!: drawNumber_cases)
next
  case OnTimer
  with assms have "timerFires st = (st', outs)" by simp
  from timerFires_spec [OF this] show ?thesis
  proof
    assume "timers st = [] \<and> st' = st \<and> outs = []"
    then show ?thesis by simp
  next
    assume "\<exists>ra ua rest room1 completedRows room3.
             timers st = (ra, ua) # rest
           \<and> checkPlayersForCompletedRows (roomObjs st ra) = (room1, completedRows)
           \<and> outs = map (rowCompletedEvent (u_roomId (userObjs st ua))) completedRows
           \<and> st' = st\<lparr>timers := rest, roomObjs := (roomObjs st)(ra := room3)\<rparr>
           \<and> r_drawnNumbers room3 = r_drawnNumbers (roomObjs st ra)
           \<and> r_completedRows room3 = r_completedRows room1
           \<and> (r_gameOver (roomObjs st ra) \<longrightarrow> r_gameOver room3)
           \<and> (completedRows \<noteq> [] \<longrightarrow> r_gameOver room3)"
    then obtain rb ua rest room1 completedRows room3 where h:
      "checkPlayersForCompletedRows (roomObjs st rb) = (room1, completedRows)"
      "st' = st\<lparr>timers := rest, roomObjs := (roomObjs st)(rb := room3)\<rparr>"
      "r_completedRows room3 = r_completedRows room1"
      "r_gameOver (roomObjs st rb) \<longrightarrow> r_gameOver room3"
      by blast
    from checkPlayersForCompletedRows_spec(2) [OF h(1)] h(2,3,4) show ?thesis
      by auto
  qed
next
  case (OnRoomClose sock rid now big)
  with assms show ?thesis by (auto dest: roomClose_game)
next
  case (OnDisconnect sock)
  with assms have "gameFields (roomObjs st' ra) = gameFields (roomObjs st ra)"
    by (auto dest: disconnect_game)
  then show ?thesis by (simp add: gameFields_def)
qed

lemma run_gameFields:
  "run cfg es st = Some (st', outs) \<Longrightarrow> ra < roomNext st \<Longrightarrow>
     ra < roomNext st'
     \<and> (r_gameOver (roomObjs st ra) \<longrightarrow> r_gameOver (roomObjs st' ra))
     \<and> set (r_completedRows (roomObjs st ra)) \<subseteq> set (r_completedRows (roomObjs st' ra))"
proof (induction es arbitrary: st outs)
  case Nil
  then show ?case by simp
next
  case (Cons e es)
  from Cons.prems(1) obtain st1 outs1 outs2 where
    s: "step cfg e st = Some (st1, outs1)" and r: "run cfg es st1 = Some (st', outs2)"
    by (auto split: option.splits)
  from step_roomNext [OF s] Cons.prems(2) have lt: "ra < roomNext st1" by simp
  from step_gameFields [OF s Cons.prems(2)] Cons.IH [OF r lt] show ?case
    by blast
qed

lemma step_alloc_frame:
  assumes "step cfg e st = Some (st', outs)"
  shows "(timers st' = timers st
          \<or> (\<exists>ra ua rid. timers st' = timers st @ [(ra, ua)] \<and> rooms st rid = Some ra)
          \<or> (\<exists>t. timers st = t # timers st'))
       \<and> (\<forall>rid ra. rooms st' rid = Some ra \<longrightarrow> rooms st rid = Some ra \<or> ra < roomNext st')"
proof (cases e)
  case (OnConnection sock)
  with assms show ?thesis by (auto simp: connection_def)
next
  case (OnAdminLogin sock u p)
  with assms show ?thesis by (auto simp: adminLogin_def Let_def split: if_splits)
next
  case (OnRoomCreate sock ex cs now)
  with assms show ?thesis
    by (auto simp: roomCreate_def Let_def split: option.splits if_splits prod.splits)
next
  case (OnRoomJoin sock rid name pid now rnd)
  with assms show ?thesis
    by (auto simp: roomJoin_def Let_def split: option.splits if_splits prod.splits)
next
  case (OnBingoCard sock rid c pid)
  with assms show ?thesis
    by (auto simp: bingoCardHandler_def Let_def split: option.splits if_splits prod.splits)
next
  case (OnDrawNumber sock samples now)
  with assms have "drawNumber sock samples now st = Some (st', outs)" by simp
  from drawNumber_cases [OF this] show ?thesis by auto
next
  case OnTimer
  with assms have "timerFires st = (st', outs)" by simp
  from timerFires_spec [OF this] show ?thesis by auto
next
  case (OnRoomClose sock rid now big)
  with assms show ?thesis
    by (auto simp: roomClose_def archive_def Let_def split: option.splits if_splits prod.splits)
next
  case (OnDisconnect sock)
  with assms show ?thesis
    by (auto simp: disconnect_def Let_def split: option.splits if_splits prod.splits)
qed

lemma alloc_ok_step:
  assumes "step cfg e st = Some (st', outs)" and "alloc_ok st"
  shows "alloc_ok st'"
proof -
  have T: "\<And>ra ua. (ra, ua) \<in> set (timers st) \<Longrightarrow> ra < roomNext st"
    and R: "\<And>rid ra. rooms st rid = Some ra \<Longrightarrow> ra < roomNext st"
    using assms(2) by (auto simp: alloc_ok_def)
  note le = step_roomNext [OF assms(1)]
  note frame = step_alloc_frame [OF assms(1)]
  have "ra < roomNext st'" if "rooms st' rid = Some ra" for rid ra
    using frame that R le by (meson less_le_trans)
  moreover have "ra < roomNext st'" if "(ra, ua) \<in> set (timers st')" for ra ua
  proof -
    from frame that have "(ra, ua) \<in> set (timers st) \<or> (\<exists>rid. rooms st rid = Some ra)"
      by (auto simp: set_ConsD)
    with T R le show ?thesis by (meson less_le_trans)
  qed
  ultimately show ?thesis by (auto simp: alloc_ok_def)
qed

lemma alloc_ok_init: "alloc_ok (init h)"
  by (simp add: alloc_ok_def init_def)

lemma reachable_alloc_ok: "reachable cfg st \<Longrightarrow> alloc_ok st"
  by (induction rule: reachable.induct) (auto intro: alloc_ok_init alloc_ok_step)

lemma sendPlayersList_no_rowCompleted: "rowCompletedMsgs (sendPlayersListToAdmin st room) = []"
  by (auto simp: sendPlayersListToAdmin_def split: option.splits)

lemma step_collected:
  assumes "step cfg e st = Some (st', outs)" and "alloc_ok st"
  shows "rowCompletedMsgs outs = map (\<lambda>(ra, c). (c_playerName c, c_rowNumber c, c_numbers c)) (collectedAt e st)"
    and "distinct (map (\<lambda>(ra, c). (ra, completedKey c)) (collectedAt e st))"
    and "\<forall>(ra, c) \<in> set (collectedAt e st).
           ra < roomNext st
         \<and> completedKey c \<notin> set (r_completedRows (roomObjs st ra))
         \<and> completedKey c \<in> set (r_completedRows (roomObjs st' ra))"
proof -
  have "rowCompletedMsgs outs = map (\<lambda>(ra, c). (c_playerName c, c_rowNumber c, c_numbers c)) (collectedAt e st)
      \<and> distinct (map (\<lambda>(ra, c). (ra, completedKey c)) (collectedAt e st))
      \<and> (\<forall>(ra, c) \<in> set (collectedAt e st).
           ra < roomNext st
         \<and> completedKey c \<notin> set (r_completedRows (roomObjs st ra))
         \<and> completedKey c \<in> set (r_completedRows (roomObjs st' ra)))"
  proof (cases e)
    case (OnConnection sock)
    with assms show ?thesis by (auto simp: connection_def collectedAt_def)
  next
    case (OnAdminLogin sock u p)
    with assms show ?thesis by (auto simp: adminLogin_def collectedAt_def Let_def split: if_splits)
  next
    case (OnRoomCreate sock ex cs now)
    with assms show ?thesis
      by (auto simp: roomCreate_def collectedAt_def Let_def sendPlayersList_no_rowCompleted
               split: option.splits if_splits prod.splits)
  next
    case (OnRoomJoin sock rid name pid now rnd)
    with assms show ?thesis
      by (auto simp: roomJoin_def collectedAt_def Let_def sendPlayersList_no_rowCompleted
               split: option.splits if_splits prod.splits)
  next
    case (OnBingoCard sock rid c pid)
    with assms show ?thesis
      by (auto simp: bingoCardHandler_def collectedAt_def Let_def split: option.splits if_splits prod.splits)
  next
    case (OnDrawNumber sock samples now)
    with assms have "drawNumber sock samples now st = Some (st', outs)" by simp
    from drawNumber_cases [OF this] OnDrawNumber show ?thesis
      by (auto simp: collectedAt_def)
  next
    case OnTimer
    with assms have t: "timerFires st = (st', outs)" by simp
    from timerFires_spec [OF t] show ?thesis
    proof
      assume "timers st = [] \<and> st' = st \<and> outs = []"
      with OnTimer show ?thesis by (simp add: collectedAt_def)
    next
      assume "\<exists>ra ua rest room1 completedRows room3.
             timers st = (ra, ua) # rest
           \<and> checkPlayersForCompletedRows (roomObjs st ra) = (room1, completedRows)
           \<and> outs = map (rowCompletedEvent (u_roomId (userObjs st ua))) completedRows
           \<and> st' = st\<lparr>timers := rest, roomObjs := (roomObjs st)(ra := room3)\<rparr>
           \<and> r_drawnNumbers room3 = r_drawnNumbers (roomObjs st ra)
           \<and> r_completedRows room3 = r_completedRows room1
           \<and> (r_gameOver (roomObjs st ra) \<longrightarrow> r_gameOver room3)
           \<and> (completedRows \<noteq> [] \<longrightarrow> r_gameOver room3)"
      then obtain rb ua rest room1 completedRows room3 where h:
        "timers st = (rb, ua) # rest"
        "checkPlayersForCompletedRows (roomObjs st rb) = (room1, completedRows)"
        "outs = map (rowCompletedEvent (u_roomId (userObjs st ua))) completedRows"
        "st' = st\<lparr>timers := rest, roomObjs := (roomObjs st)(rb := room3)\<rparr>"
        "r_completedRows room3 = r_completedRows room1"
        by blast
      have col: "collectedAt e st = map (\<lambda>c. (rb, c)) completedRows"
        using OnTimer h(1,2) by (simp add: collectedAt_def)
      have lt: "rb < roomNext st"
        using assms(2) h(1) by (simp add: alloc_ok_def)
      note spec = checkPlayersForCompletedRows_spec [OF h(2)]
      have "rowCompletedMsgs outs = map (\<lambda>(ra, c). (c_playerName c, c_rowNumber c, c_numbers c)) (collectedAt e st)"
        by (simp add: col h(3) rowCompletedMsgs_events o_def)
      moreover have "distinct (map (\<lambda>(ra, c). (ra, completedKey c)) (collectedAt e st))"
        using spec(3) by (simp add: col o_def distinct_map inj_on_def)
      moreover have "\<forall>(ra, c) \<in> set (collectedAt e st).
           ra < roomNext st
         \<and> completedKey c \<notin> set (r_completedRows (roomObjs st ra))
         \<and> completedKey c \<in> set (r_completedRows (roomObjs st' ra))"
        using spec(2,4) lt h(4,5) by (auto simp: col)
      ultimately show ?thesis by blast
    qed
  next
    case (OnRoomClose sock rid now big)
    with assms show ?thesis
      by (auto simp: roomClose_def collectedAt_def Let_def split: option.splits if_splits prod.splits)
  next
    case (OnDisconnect sock)
    with assms show ?thesis
      by (auto simp: disconnect_def collectedAt_def Let_def sendPlayersList_no_rowCompleted
               split: option.splits if_splits prod.splits)
  qed
  then show "rowCompletedMsgs outs = map (\<lambda>(ra, c). (c_playerName c, c_rowNumber c, c_numbers c)) (collectedAt e st)"
    and "distinct (map (\<lambda>(ra, c). (ra, completedKey c)) (collectedAt e st))"
    and "\<forall>(ra, c) \<in> set (collectedAt e st).
           ra < roomNext st
         \<and> completedKey c \<notin> set (r_completedRows (roomObjs st ra))
         \<and> completedKey c \<in> set (r_completedRows (roomObjs st' ra))"
    by blast+
qed

lemma reachable_run:
  "reachable cfg st \<Longrightarrow> list_all wf_event es \<Longrightarrow> run cfg es st = Some (st', outs) \<Longrightarrow> reachable cfg st'"
proof (induction es arbitrary: st outs)
  case Nil
  then show ?case by simp
next
  case (Cons e es)
  from Cons.prems(3) obtain st1 outs1 outs2 where
    s: "step cfg e st = Some (st1, outs1)" and r: "run cfg es st1 = Some (st', outs2)"
    by (auto split: option.splits)
  from Cons.prems(1,2) s have "reachable cfg st1"
    by (auto intro: reachable_step)
  with Cons.IH r Cons.prems(2) show ?case by auto
qed

lemma run_the:
  "run cfg es st \<noteq> None \<Longrightarrow> run cfg es st = Some (fst (the (run cfg es st)), snd (the (run cfg es st)))"
  by auto

lemma distinct_keys_pairs:
  "distinct (map (\<lambda>(ra, c). (ra, completedKey c)) xs) \<Longrightarrow>
   distinct (map (\<lambda>(ra, c). (ra, c_playerId c, c_rowNumber c)) xs)"
proof (induction xs)
  case Nil
  then show ?case by simp
next
  case (Cons x xs)
  obtain ra c where x: "x = (ra, c)" by (cases x) auto
  have "(ra, c_playerId c, c_rowNumber c) \<notin> (\<lambda>(ra, c). (ra, c_playerId c, c_rowNumber c)) ` set xs"
  proof
    assume "(ra, c_playerId c, c_rowNumber c) \<in> (\<lambda>(ra, c). (ra, c_playerId c, c_rowNumber c)) ` set xs"
    then obtain d where d: "(ra, d) \<in> set xs" "c_playerId d = c_playerId c" "c_rowNumber d = c_rowNumber c"
      by auto
    then have "(ra, completedKey c) \<in> (\<lambda>(ra, c). (ra, completedKey c)) ` set xs"
      by (force simp: completedKey_def)
    with Cons.prems x show False by simp
  qed
  with Cons x show ?case by simp
qed

lemma run_collected:
  "alloc_ok st \<Longrightarrow> run cfg es st = Some (st', outs) \<Longrightarrow>
     distinct (map (\<lambda>(ra, c). (ra, completedKey c)) (collected cfg es st))
   \<and> (\<forall>(ra, c) \<in> set (collected cfg es st).
         ra < roomNext st \<longrightarrow> completedKey c \<notin> set (r_completedRows (roomObjs st ra)))
   \<and> rowCompletedMsgs outs
        = map (\<lambda>(ra, c). (c_playerName c, c_rowNumber c, c_numbers c)) (collected cfg es st)"
proof (induction es arbitrary: st outs)
  case Nil
  then show ?case by simp
next
  case (Cons e es)
  from Cons.prems(2) obtain st1 outs1 outs2 where
    s: "step cfg e st = Some (st1, outs1)" and r: "run cfg es st1 = Some (st', outs2)"
    and outs: "outs = outs1 @ outs2"
    by (auto split: option.splits)
  note ok1 = alloc_ok_step [OF s Cons.prems(1)]
  note IH = Cons.IH [OF ok1 r]
  note now = step_collected [OF s Cons.prems(1)]
  note le = step_roomNext [OF s]
  have col: "collected cfg (e # es) st = collectedAt e st @ collected cfg es st1"
    using s by simp
  have disj: "(ra, completedKey c) \<noteq> (rb, completedKey d)"
    if "(ra, c) \<in> set (collectedAt e st)" and "(rb, d) \<in> set (collected cfg es st1)" for ra c rb d
  proof
    assume eq: "(ra, completedKey c) = (rb, completedKey d)"
    from now(3) that(1) have a: "ra < roomNext st" "completedKey c \<in> set (r_completedRows (roomObjs st1 ra))"
      by auto
    from a(1) le eq have "rb < roomNext st1" by simp
    with IH that(2) have "completedKey d \<notin> set (r_completedRows (roomObjs st1 rb))"
      by auto
    with a(2) eq show False by simp
  qed
  have "distinct (map (\<lambda>(ra, c). (ra, completedKey c)) (collected cfg (e # es) st))"
    using now(2) IH disj unfolding col by auto
  moreover have "\<forall>(ra, c) \<in> set (collected cfg (e # es) st).
         ra < roomNext st \<longrightarrow> completedKey c \<notin> set (r_completedRows (roomObjs st ra))"
  proof -
    have "completedKey c \<notin> set (r_completedRows (roomObjs st ra))"
      if "(ra, c) \<in> set (collected cfg es st1)" and "ra < roomNext st" for ra c
    proof -
      from that(2) le have "ra < roomNext st1" by simp
      with IH that(1) have "completedKey c \<notin> set (r_completedRows (roomObjs st1 ra))"
        by auto
      with step_gameFields [OF s that(2)] show ?thesis by auto
    qed
    with now(3) show ?thesis unfolding col by auto
  qed
  moreover have "rowCompletedMsgs outs
        = map (\<lambda>(ra, c). (c_playerName c, c_rowNumber c, c_numbers c)) (collected cfg (e # es) st)"
    using now(1) IH unfolding col outs by (simp add: rowCompletedMsgs_append)
  ultimately show ?case by blast
qed

section \<open>Invariants of the reachable states\<close>

lemma foldl_append_acc: "foldl (\<lambda>code r. code @ f r) acc rs = acc @ concat (map f rs)"
  by (induction rs arbitrary: acc) auto

lemma length_generateRoomCode:
  "list_all (\<lambda>r. r < 36) rs \<Longrightarrow> length (generateRoomCode rs) = length rs"
  unfolding generateRoomCode_def foldl_append_acc
  by (induction rs) (auto simp: charAt_def chars_def)

lemma pickRoomCode_Some:
  "pickRoomCode rms codes = Some c \<Longrightarrow> c \<in> set codes \<and> rms c = None"
  by (induction codes) (auto split: if_splits)


lemma pickRoomCode_None:
  "pickRoomCode rms codes = None \<Longrightarrow> \<forall>c \<in> set codes. rms c \<noteq> None"
  by (induction codes) (auto split: if_splits)

lemma pickRoomCode_length:
  assumes "pickRoomCode rms (map generateRoomCode codeSamples) = Some c"
    and "list_all (\<lambda>rs. length rs = 6 \<and> list_all (\<lambda>r. r < 36) rs) codeSamples"
  shows "length c = 6"
proof -
  from pickRoomCode_Some [OF assms(1)] obtain rs where "rs \<in> set codeSamples" "c = generateRoomCode rs"
    by auto
  with assms(2) show ?thesis
    by (auto simp: list_all_iff length_generateRoomCode)
qed

lemma drawn_ok_add:
  assumes "drawn_ok drawn" and "pickNumber drawn samples = Some n" and "list_all (\<lambda>k. k < 90) samples"
    and "length drawn < 90"
  shows "drawn_ok (drawn @ [n])"
proof -
  from pickNumber_Some [OF assms(2)] obtain k where k: "n \<notin> set drawn" "k \<in> set samples" "n = int k + 1"
    by auto
  with assms(3) have "1 \<le> n \<and> n \<le> 90" by (auto simp: list_all_iff)
  with assms(1,4) k(1) show ?thesis by (simp add: drawn_ok_def)
qed

lemma foldl_storeWinnerInfo_admin:
  "r_adminSocketId (foldl storeWinnerInfo room cs) = r_adminSocketId room"
  by (induction cs arbitrary: room) (auto simp: storeWinnerInfo_def)

lemma timerFires_admin:
  assumes "timerFires st = (st', outs)"
  shows "r_adminSocketId (roomObjs st' ra) = r_adminSocketId (roomObjs st ra)
       \<and> r_drawnNumbers (roomObjs st' ra) = r_drawnNumbers (roomObjs st ra)
       \<and> rooms st' = rooms st \<and> roomNext st' = roomNext st
       \<and> users st' = users st \<and> userObjs st' = userObjs st \<and> userNext st' = userNext st"
  using assms
  by (auto simp: timerFires_def winCheck_def checkPlayersForCompletedRows_def Let_def
                 foldl_storeWinnerInfo_admin foldl_storeWinnerInfo_fields storeWinnerInfo_def
           split: list.splits prod.splits if_splits)

lemma rooms_ok_step:
  assumes "step cfg e st = Some (st', outs)" and "wf_event e" and "rooms_ok st"
  shows "rooms_ok st'"
proof (cases e)
  case (OnConnection sock)
  with assms show ?thesis by (auto simp: connection_def rooms_ok_def)
next
  case (OnAdminLogin sock u p)
  with assms show ?thesis by (auto simp: adminLogin_def rooms_ok_def Let_def split: if_splits)
next
  case (OnRoomCreate sock ex cs now)
  with assms show ?thesis
    by (auto simp: roomCreate_def rooms_ok_def Let_def less_Suc_eq newRoom_def drawn_ok_def
             dest: pickRoomCode_length
             split: option.splits if_splits prod.splits)
next
  case (OnRoomJoin sock rid name pid now rnd)
  with assms show ?thesis
    by (auto simp: roomJoin_def rooms_ok_def Let_def split: option.splits if_splits prod.splits)
next
  case (OnBingoCard sock rid c pid)
  with assms show ?thesis
    by (auto simp: bingoCardHandler_def rooms_ok_def Let_def split: option.splits if_splits prod.splits)
next
  case (OnDrawNumber sock samples now)
  with assms have d: "drawNumber sock samples now st = Some (st', outs)"
    and wf: "list_all (\<lambda>k. k < 90) samples" by simp_all
  from drawNumber_cases [OF d] show ?thesis
  proof (elim disjE exE conjE)
    assume "st' = st"
    with assms(3) show ?thesis by simp
  next
    fix ua rid ra n
    assume h: "length (r_drawnNumbers (roomObjs st ra)) < 90"
      "pickNumber (r_drawnNumbers (roomObjs st ra)) samples = Some n"
      "st' = (updRoom ra (\<lambda>r. r\<lparr>r_drawnNumbers := r_drawnNumbers r @ [n]\<rparr>) st)
               \<lparr>timers := timers st @ [(ra, ua)]\<rparr>"
    have "drawn_ok (r_drawnNumbers (roomObjs st ra) @ [n])" if "ra < roomNext st"
      using that assms(3) h(1,2) wf by (auto simp: rooms_ok_def intro: drawn_ok_add)
    with assms(3) h(3) show ?thesis
      by (auto simp: rooms_ok_def)
  qed
next
  case OnTimer
  with assms have "timerFires st = (st', outs)" by simp
  from timerFires_admin [OF this] assms(3) show ?thesis
    by (simp add: rooms_ok_def)
next
  case (OnRoomClose sock rid now big)
  with assms show ?thesis
    by (auto simp: roomClose_def rooms_ok_def archive_def Let_def
             split: option.splits if_splits prod.splits)
next
  case (OnDisconnect sock)
  with assms show ?thesis
    by (auto simp: disconnect_def rooms_ok_def Let_def split: option.splits if_splits prod.splits)
qed

lemma users_ok_step:
  assumes "step cfg e st = Some (st', outs)" and "users_ok st"
  shows "users_ok st'"
proof -
  have L: "\<And>s ua. users st s = Some ua \<Longrightarrow> ua < userNext st"
    and U: "\<And>s ua. users st s = Some ua \<Longrightarrow> u_userId (userObjs st ua) = s"
    using assms(2) by (auto simp: users_ok_def)
  show ?thesis
  proof (cases e)
    case (OnConnection sock)
    with assms show ?thesis by (auto simp: connection_def users_ok_def)
  next
    case (OnAdminLogin sock u p)
    with assms show ?thesis
      by (auto simp: adminLogin_def users_ok_def Let_def less_Suc_eq split: if_splits dest: L U)
  next
    case (OnRoomCreate sock ex cs now)
    with assms show ?thesis
      by (auto simp: roomCreate_def users_ok_def Let_def split: option.splits if_splits prod.splits
               dest: L U)
  next
    case (OnRoomJoin sock rid name pid now rnd)
    with assms show ?thesis
      by (auto simp: roomJoin_def users_ok_def Let_def less_Suc_eq
               split: option.splits if_splits prod.splits dest: L U)
  next
    case (OnBingoCard sock rid c pid)
    with assms show ?thesis
      by (auto simp: bingoCardHandler_def users_ok_def Let_def
               split: option.splits if_splits prod.splits dest: L U)
  next
    case (OnDrawNumber sock samples now)
    with assms have d: "drawNumber sock samples now st = Some (st', outs)" by simp
    from drawNumber_cases [OF d] assms(2) show ?thesis
      by (auto simp: users_ok_def)
  next
    case OnTimer
    with assms have "timerFires st = (st', outs)" by simp
    from timerFires_admin [OF this] assms(2) show ?thesis
      by (simp add: users_ok_def)
  next
    case (OnRoomClose sock rid now big)
    with assms show ?thesis
      by (auto simp: roomClose_def users_ok_def archive_def Let_def
               split: option.splits if_splits prod.splits)
  next
    case (OnDisconnect sock)
    with assms show ?thesis
      by (auto simp: disconnect_def users_ok_def Let_def
               split: option.splits if_splits prod.splits dest: L U)
  qed
qed

lemma reachable_rooms_ok: "reachable cfg st \<Longrightarrow> rooms_ok st"
proof (induction rule: reachable.induct)
  case (reachable_init h)
  show ?case by (simp add: rooms_ok_def init_def)
next
  case (reachable_step st e st' outs)
  then show ?case by (blast intro: rooms_ok_step)
qed

lemma reachable_users_ok: "reachable cfg st \<Longrightarrow> users_ok st"
proof (induction rule: reachable.induct)
  case (reachable_init h)
  show ?case by (simp add: users_ok_def init_def)
next
  case (reachable_step st e st' outs)
  then show ?case by (blast intro: users_ok_step)
qed





lemma reconnectTarget_updUser [simp]:
  "reconnectTarget (updUser ua f st) ex = reconnectTarget st ex"
  by (simp add: reconnectTarget_def lookupRoom_def split: option.splits)



section \<open>The scenarios run\<close>

lemma gameA_runs: "run demoConfig gameA (init []) \<noteq> None"
  by code_simp

lemma gameA_wf: "list_all wf_event gameA"
  by code_simp

lemma laterA_runs: "run demoConfig laterA afterGameA \<noteq> None"
  by code_simp

lemma gameA_laterA_runs: "run demoConfig (gameA @ laterA) (init []) \<noteq> None"
  by code_simp

lemma openingA_runs: "run demoConfig openingA (init []) \<noteq> None"
  by code_simp

lemma midGameA_reachable: "reachable demoConfig midGameA"
proof -
  have wf: "list_all wf_event openingA" by code_simp
  from reachable_run [OF reachable_init wf run_the [OF openingA_runs]]
  show ?thesis by (simp add: midGameA_def)
qed

lemma afterGameA_reachable: "reachable demoConfig afterGameA"
proof -
  from reachable_run [OF reachable_init gameA_wf run_the [OF gameA_runs]]
  show ?thesis by (simp add: afterGameA_def)
qed


section \<open>The over flag\<close>

text \<open>
  C2, as amended. Once a room object's \<^verbatim>\<open>gameOver\<close> is true it stays true through
  every run of events. From then on a \<^verbatim>\<open>game:drawNumber\<close> of any user whose
  \<^verbatim>\<open>roomId\<close> names that room changes nothing and emits one error to the requester
  only: the game-over error when the user is an admin, the only-admin error otherwise,
  since the admin check comes first. No number is added and no draw is broadcast.
\<close>

theorem gameOver_gates_draws:
  assumes "run cfg es st = Some (st', outs)" and "ra < roomNext st" and "r_gameOver (roomObjs st ra)"
  shows "r_gameOver (roomObjs st' ra)
       \<and> (\<forall>sock samples now ua rid.
            users st' sock = Some ua \<and> u_roomId (userObjs st' ua) = Some rid \<and> rid \<noteq> []
              \<and> rooms st' rid = Some ra \<longrightarrow>
            drawNumber sock samples now st'
              = Some (st', [Emit sock (Error (if u_isAdmin (userObjs st' ua) then GameIsOver
                                              else OnlyRoomAdminCanDraw))]))"
proof -
  from run_gameFields [OF assms(1,2)] assms(3) have over: "r_gameOver (roomObjs st' ra)"
    by blast
  then show ?thesis
    by (auto simp: drawNumber_def lookupRoom_def Let_def)
qed

theorem gameOver_gates_draws_witness:
  "run demoConfig laterA afterGameA \<noteq> None
   \<and> r_gameOver (roomObjs (fst (the (run demoConfig laterA afterGameA))) 0)
   \<and> drawNumber ''s1'' [7] 6000 (fst (the (run demoConfig laterA afterGameA)))
       = Some (fst (the (run demoConfig laterA afterGameA)), [Emit ''s1'' (Error GameIsOver)])
   \<and> drawNumber ''s2'' [7] 6000 (fst (the (run demoConfig laterA afterGameA)))
       = Some (fst (the (run demoConfig laterA afterGameA)), [Emit ''s2'' (Error OnlyRoomAdminCanDraw)])"
proof -
  have a: "0 < roomNext afterGameA" "r_gameOver (roomObjs afterGameA 0)" by code_simp+
  let ?st = "fst (the (run demoConfig laterA afterGameA))"
  have u: "users ?st ''s1'' = Some 0" "u_roomId (userObjs ?st 0) = Some ''AB12CD''"
    "rooms ?st ''AB12CD'' = Some 0" "u_isAdmin (userObjs ?st 0)"
    "users ?st ''s2'' = Some 1" "u_roomId (userObjs ?st 1) = Some ''AB12CD''"
    "\<not> u_isAdmin (userObjs ?st 1)"
    by code_simp+
  note g = gameOver_gates_draws [OF run_the [OF laterA_runs] a]
  from g u(1,2,3) have "drawNumber ''s1'' [7] 6000 ?st
      = Some (?st, [Emit ''s1'' (Error (if u_isAdmin (userObjs ?st 0) then GameIsOver else OnlyRoomAdminCanDraw))])"
    by blast
  moreover from g u(3,5,6) have "drawNumber ''s2'' [7] 6000 ?st
      = Some (?st, [Emit ''s2'' (Error (if u_isAdmin (userObjs ?st 1) then GameIsOver else OnlyRoomAdminCanDraw))])"
    by blast
  ultimately show ?thesis
    using g u(4,7) laterA_runs by simp
qed

text \<open>
  C2 as stated fails: after the game the room \<open>AB12CD\<close> is over and Sam's user is bound
  to it, and Sam's \<^verbatim>\<open>game:drawNumber\<close> is answered with 'Only room admin can draw
  numbers', not with the game-over error.
\<close>

theorem gameOver_gates_draws_counterexample:
  "run demoConfig gameA (init []) \<noteq> None
   \<and> rooms afterGameA ''AB12CD'' = Some 0
   \<and> r_gameOver (roomObjs afterGameA 0)
   \<and> users afterGameA ''s2'' = Some 1
   \<and> u_roomId (userObjs afterGameA 1) = Some ''AB12CD''
   \<and> map_option snd (drawNumber ''s2'' [7] 5000 afterGameA)
       = Some [Emit ''s2'' (Error OnlyRoomAdminCanDraw)]"
  by code_simp

section \<open>Notified rows\<close>

text \<open>
  C4. From any reachable state and through any run of events: the
  \<^verbatim>\<open>completedRows\<close> set of every room object only grows; the completions that the
  win checks of the run collect are pairwise different in (room, player id, row
  number), so no pair is collected twice; no completion is collected for a row whose key
  was in the room's set when the run started; and the \<^verbatim>\<open>game:rowCompleted\<close>
  broadcasts of the run are exactly the collected completions, one broadcast each, in
  order.
\<close>

theorem notified_rows_once:
  assumes "reachable cfg st" and "run cfg es st = Some (st', outs)"
  shows "(\<forall>ra < roomNext st. set (r_completedRows (roomObjs st ra)) \<subseteq> set (r_completedRows (roomObjs st' ra)))
       \<and> distinct (map (\<lambda>(ra, c). (ra, c_playerId c, c_rowNumber c)) (collected cfg es st))
       \<and> (\<forall>(ra, c) \<in> set (collected cfg es st).
            ra < roomNext st \<longrightarrow>
              rowKey (c_playerId c) (c_rowNumber c - 1) \<notin> set (r_completedRows (roomObjs st ra)))
       \<and> rowCompletedMsgs outs
            = map (\<lambda>(ra, c). (c_playerName c, c_rowNumber c, c_numbers c)) (collected cfg es st)"
proof -
  note rc = run_collected [OF reachable_alloc_ok [OF assms(1)] assms(2)]
  from rc have "distinct (map (\<lambda>(ra, c). (ra, c_playerId c, c_rowNumber c)) (collected cfg es st))"
    by (simp add: distinct_keys_pairs)
  moreover have "\<forall>ra < roomNext st. set (r_completedRows (roomObjs st ra)) \<subseteq> set (r_completedRows (roomObjs st' ra))"
    using run_gameFields [OF assms(2)] by blast
  moreover have "\<forall>(ra, c) \<in> set (collected cfg es st).
            ra < roomNext st \<longrightarrow>
              rowKey (c_playerId c) (c_rowNumber c - 1) \<notin> set (r_completedRows (roomObjs st ra))"
    using rc by (simp add: completedKey_def)
  ultimately show ?thesis
    using rc by blast
qed

theorem notified_rows_once_witness:
  "run demoConfig (gameA @ laterA) (init []) \<noteq> None
   \<and> collected demoConfig (gameA @ laterA) (init [])
     = [(0, \<lparr>c_playerId = ''player_5_x'', c_playerName = ''Sam'', c_rowNumber = 2,
              c_numbers = [5, 12, 23, 41, 67]\<rparr>)]
   \<and> rowCompletedMsgs (snd (the (run demoConfig (gameA @ laterA) (init []))))
     = [(''Sam'', 2, [5, 12, 23, 41, 67])]
   \<and> r_completedRows (roomObjs (fst (the (run demoConfig (gameA @ laterA) (init [])))) 0)
     = [''player_5_x_row_1'']"
proof -
  have c: "collected demoConfig (gameA @ laterA) (init [])
     = [(0, \<lparr>c_playerId = ''player_5_x'', c_playerName = ''Sam'', c_rowNumber = 2,
              c_numbers = [5, 12, 23, 41, 67]\<rparr>)]"
    by code_simp
  have k: "r_completedRows (roomObjs (fst (the (run demoConfig (gameA @ laterA) (init [])))) 0)
     = [''player_5_x_row_1'']"
    by code_simp
  from notified_rows_once [OF reachable_init run_the [OF gameA_laterA_runs]] c k gameA_laterA_runs
  show ?thesis
    by simp
qed

section \<open>The drawn numbers\<close>

text \<open>
  C3, as amended. In every reachable state the drawn numbers of every room object have
  no duplicate, are at most 90 and lie between 1 and 90. A \<^verbatim>\<open>game:drawNumber\<close> that
  returns either fails (one error to the requester, nothing changed) or appends to the
  drawn numbers of one room in \<^verbatim>\<open>rooms\<close> exactly one number between 1 and 90 that
  was not there, leaves every other room object as it was and broadcasts that number.
  When a room holds 90 numbers, the draw of an admin bound to it fails with 'All numbers
  have been drawn!' provided the room is not over; the over check comes first.
\<close>

theorem drawnNumbers_invariant:
  assumes "reachable cfg st"
  shows "(\<forall>ra < roomNext st.
            distinct (r_drawnNumbers (roomObjs st ra))
          \<and> length (r_drawnNumbers (roomObjs st ra)) \<le> 90
          \<and> (\<forall>n \<in> set (r_drawnNumbers (roomObjs st ra)). 1 \<le> n \<and> n \<le> 90))
       \<and> (\<forall>sock samples now st' outs.
            list_all (\<lambda>k. k < 90) samples \<and> drawNumber sock samples now st = Some (st', outs) \<longrightarrow>
              (st' = st \<and> (\<exists>e. outs = [Emit sock (Error e)]))
            \<or> (\<exists>rid ra n.
                  rooms st rid = Some ra
                \<and> n \<notin> set (r_drawnNumbers (roomObjs st ra)) \<and> 1 \<le> n \<and> n \<le> 90
                \<and> r_drawnNumbers (roomObjs st' ra) = r_drawnNumbers (roomObjs st ra) @ [n]
                \<and> (\<forall>rb. rb \<noteq> ra \<longrightarrow> roomObjs st' rb = roomObjs st rb)
                \<and> outs = [Broadcast (Some rid)
                             (NumberDrawn n (now + 500) (r_drawnNumbers (roomObjs st ra) @ [n]))]))
       \<and> (\<forall>sock samples now ua rid ra.
            users st sock = Some ua \<and> u_isAdmin (userObjs st ua)
              \<and> u_roomId (userObjs st ua) = Some rid \<and> rooms st rid = Some ra
              \<and> \<not> r_gameOver (roomObjs st ra)
              \<and> length (r_drawnNumbers (roomObjs st ra)) = 90 \<longrightarrow>
            drawNumber sock samples now st = Some (st, [Emit sock (Error AllNumbersDrawn)]))"
proof -
  note ok = reachable_rooms_ok [OF assms]
  have inv: "\<forall>ra < roomNext st.
            distinct (r_drawnNumbers (roomObjs st ra))
          \<and> length (r_drawnNumbers (roomObjs st ra)) \<le> 90
          \<and> (\<forall>n \<in> set (r_drawnNumbers (roomObjs st ra)). 1 \<le> n \<and> n \<le> 90)"
    using ok by (auto simp: rooms_ok_def drawn_ok_def list_all_iff)
  have draw: "(st' = st \<and> (\<exists>e. outs = [Emit sock (Error e)]))
            \<or> (\<exists>rid ra n.
                  rooms st rid = Some ra
                \<and> n \<notin> set (r_drawnNumbers (roomObjs st ra)) \<and> 1 \<le> n \<and> n \<le> 90
                \<and> r_drawnNumbers (roomObjs st' ra) = r_drawnNumbers (roomObjs st ra) @ [n]
                \<and> (\<forall>rb. rb \<noteq> ra \<longrightarrow> roomObjs st' rb = roomObjs st rb)
                \<and> outs = [Broadcast (Some rid)
                             (NumberDrawn n (now + 500) (r_drawnNumbers (roomObjs st ra) @ [n]))])"
    if wf: "list_all (\<lambda>k. k < 90) samples" and d: "drawNumber sock samples now st = Some (st', outs)"
    for sock samples now st' outs
    using drawNumber_cases [OF d]
  proof (elim disjE exE conjE)
    fix e assume "st' = st" "outs = [Emit sock (Error e)]"
    then show ?thesis by blast
  next
    fix ua rid ra n
    assume h: "rooms st rid = Some ra"
      "pickNumber (r_drawnNumbers (roomObjs st ra)) samples = Some n"
      "st' = (updRoom ra (\<lambda>r. r\<lparr>r_drawnNumbers := r_drawnNumbers r @ [n]\<rparr>) st)
               \<lparr>timers := timers st @ [(ra, ua)]\<rparr>"
      "outs = [Broadcast (Some rid) (NumberDrawn n (now + 500) (r_drawnNumbers (roomObjs st ra) @ [n]))]"
    from pickNumber_Some [OF h(2)] wf have "n \<notin> set (r_drawnNumbers (roomObjs st ra)) \<and> 1 \<le> n \<and> n \<le> 90"
      by (auto simp: list_all_iff)
    with h(1,3,4) show ?thesis
      by auto
  qed
  have full: "drawNumber sock samples now st = Some (st, [Emit sock (Error AllNumbersDrawn)])"
    if "users st sock = Some ua" "u_isAdmin (userObjs st ua)"
       "u_roomId (userObjs st ua) = Some rid" "rooms st rid = Some ra"
       "\<not> r_gameOver (roomObjs st ra)" "length (r_drawnNumbers (roomObjs st ra)) = 90"
    for sock samples now ua rid ra
  proof -
    from ok that(4) have "rid \<noteq> []" by (auto simp: rooms_ok_def)
    with that show ?thesis
      by (simp add: drawNumber_def lookupRoom_def Let_def)
  qed
  from inv draw full show ?thesis by blast
qed

theorem drawnNumbers_invariant_witness:
  "distinct (r_drawnNumbers (roomObjs midGameA 0))
   \<and> length (r_drawnNumbers (roomObjs midGameA 0)) \<le> 90
   \<and> r_drawnNumbers (roomObjs midGameA 0) = [5, 12, 23]
   \<and> drawNumber ''s1'' [4, 40] 4000 midGameA \<noteq> None
   \<and> r_drawnNumbers (roomObjs (fst (the (drawNumber ''s1'' [4, 40] 4000 midGameA))) 0) = [5, 12, 23, 41]"
proof -
  have a: "0 < roomNext midGameA" "r_drawnNumbers (roomObjs midGameA 0) = [5, 12, 23]"
    "drawNumber ''s1'' [4, 40] 4000 midGameA \<noteq> None"
    "r_drawnNumbers (roomObjs (fst (the (drawNumber ''s1'' [4, 40] 4000 midGameA))) 0) = [5, 12, 23, 41]"
    by code_simp+
  from drawnNumbers_invariant [OF midGameA_reachable] a show ?thesis
    by simp
qed

lemma fullA_probe:
  "case run demoConfig fullA (init []) of
     None \<Rightarrow> False
   | Some (st, outs) \<Rightarrow>
       rooms st ''AB12CD'' = Some 0
     \<and> length (r_drawnNumbers (roomObjs st 0)) = 90
     \<and> users st ''s2'' = Some 1
     \<and> u_roomId (userObjs st 1) = Some ''AB12CD''
     \<and> map_option snd (drawNumber ''s2'' [7] 9000 st) = Some [Emit ''s2'' (Error OnlyRoomAdminCanDraw)]
     \<and> map_option snd (drawNumber ''s1'' [7] 9000 st) = Some [Emit ''s1'' (Error AllNumbersDrawn)]
     \<and> snd (timerFires st) = [Broadcast (Some ''AB12CD'') (RowCompleted ''Sam'' 1 [86, 87, 88, 89, 90])]
     \<and> length (r_drawnNumbers (roomObjs (fst (timerFires st)) 0)) = 90
     \<and> users (fst (timerFires st)) ''s1'' = Some 0
     \<and> u_isAdmin (userObjs (fst (timerFires st)) 0)
     \<and> u_roomId (userObjs (fst (timerFires st)) 0) = Some ''AB12CD''
     \<and> r_adminSocketId (roomObjs (fst (timerFires st)) 0) = Some ''s1''
     \<and> map_option snd (drawNumber ''s1'' [7] 9000 (fst (timerFires st))) = Some [Emit ''s1'' (Error GameIsOver)]"
  by code_simp

text \<open>
  C3 as stated fails in its last part. After the admin has drawn all 90 numbers of the
  room \<open>AB12CD\<close>, Sam's \<^verbatim>\<open>game:drawNumber\<close> is answered with 'Only room admin can draw
  numbers'; the admin's is answered with 'All numbers have been drawn!' while the room
  is not over, and with the game-over error once the win check of the last draw has
  found Sam's row and set the room over.
\<close>

theorem drawnNumbers_invariant_counterexample:
  "run demoConfig fullA (init []) \<noteq> None
   \<and> rooms afterFullA ''AB12CD'' = Some 0
   \<and> length (r_drawnNumbers (roomObjs afterFullA 0)) = 90
   \<and> users afterFullA ''s2'' = Some 1
   \<and> u_roomId (userObjs afterFullA 1) = Some ''AB12CD''
   \<and> map_option snd (drawNumber ''s2'' [7] 9000 afterFullA)
       = Some [Emit ''s2'' (Error OnlyRoomAdminCanDraw)]
   \<and> map_option snd (drawNumber ''s1'' [7] 9000 afterFullA)
       = Some [Emit ''s1'' (Error AllNumbersDrawn)]
   \<and> snd (timerFires afterFullA)
       = [Broadcast (Some ''AB12CD'') (RowCompleted ''Sam'' 1 [86, 87, 88, 89, 90])]
   \<and> length (r_drawnNumbers (roomObjs overFullA 0)) = 90
   \<and> users overFullA ''s1'' = Some 0
   \<and> u_isAdmin (userObjs overFullA 0)
   \<and> u_roomId (userObjs overFullA 0) = Some ''AB12CD''
   \<and> r_adminSocketId (roomObjs overFullA 0) = Some ''s1''
   \<and> map_option snd (drawNumber ''s1'' [7] 9000 overFullA)
       = Some [Emit ''s1'' (Error GameIsOver)]"
proof (cases "run demoConfig fullA (init [])")
  case None
  with fullA_probe show ?thesis by simp
next
  case (Some res)
  obtain st outs where res: "res = (st, outs)" by (cases res) auto
  from fullA_probe Some res show ?thesis
    by (simp add: afterFullA_def overFullA_def)
qed

section \<open>Rejoining\<close>




section \<open>Creating a room, and the admin's disconnect\<close>




section \<open>Closing a room\<close>

text \<open>
  C10. In a reachable state, \<^verbatim>\<open>room:close\<close> for a room in \<^verbatim>\<open>rooms\<close> that is not
  over, from a socket whose id is not the room's \<^verbatim>\<open>adminId\<close>, returns the state as it
  was (rooms, room objects and history included) and emits nothing.
\<close>

theorem close_by_other_is_noop:
  assumes "reachable cfg st" and "rooms st rid = Some ra"
    and "\<not> r_gameOver (roomObjs st ra)" and "r_adminId (roomObjs st ra) \<noteq> sock"
  shows "roomClose cfg sock (Some rid) now fileTooBig st = (st, [])"
proof -
  have "u_userId (userObjs st ua) = sock" if "users st sock = Some ua" for ua
    using reachable_users_ok [OF assms(1)] that by (simp add: users_ok_def)
  with assms(2,3,4) show ?thesis
    by (auto simp: roomClose_def lookupRoom_def Let_def split: option.splits)
qed

theorem close_by_other_is_noop_witness:
  "roomClose demoConfig ''s2'' (Some ''AB12CD'') 9000 False midGameA = (midGameA, [])"
proof -
  have "rooms midGameA ''AB12CD'' = Some 0" "\<not> r_gameOver (roomObjs midGameA 0)"
    "r_adminId (roomObjs midGameA 0) \<noteq> ''s2''"
    by code_simp+
  then show ?thesis
    by (rule close_by_other_is_noop [OF midGameA_reachable])
qed

text \<open>
  C7 at the input where the code departs from it. The admin who created the room
  \<open>AB12CD\<close> on socket \<open>s1\<close> has left and is bound to the room again on socket \<open>s3\<close>:
  the room's admin socket is \<open>s3\<close>, and \<open>s3\<close> can draw. The room's \<^verbatim>\<open>adminId\<close> is
  still \<open>s1\<close>, so \<^verbatim>\<open>room:close\<close> from \<open>s3\<close> emits nothing and leaves the room in
  \<^verbatim>\<open>rooms\<close>.
\<close>

theorem close_by_rebound_admin:
  "run demoConfig adminReturnsA midGameA \<noteq> None
   \<and> r_adminSocketId (roomObjs adminGoneA 0) = None
   \<and> map_option snd (roomCreate ''s3'' (Some ''AB12CD'') [] 7000 adminGoneA)
       = Some [Emit ''s3'' (RoomCreated ''AB12CD'' 2 True (Some [5, 12, 23])),
               Emit ''s3''
                 (PlayersList
                    [(''player_5_x'', ''Sam'',
                      Some [Some [Some 1, None, Some 2], Some [Some 5, Some 12, Some 23, Some 41, Some 67], None])])]
   \<and> rooms reboundA ''AB12CD'' = Some 0
   \<and> r_adminSocketId (roomObjs reboundA 0) = Some ''s3''
   \<and> r_adminId (roomObjs reboundA 0) = ''s1''
   \<and> \<not> r_gameOver (roomObjs reboundA 0)
   \<and> snd (roomClose demoConfig ''s3'' (Some ''AB12CD'') 8000 False reboundA) = []
   \<and> rooms (fst (roomClose demoConfig ''s3'' (Some ''AB12CD'') 8000 False reboundA)) ''AB12CD'' = Some 0
   \<and> map_option snd (drawNumber ''s3'' [40] 8500 reboundA)
       = Some [Broadcast (Some ''AB12CD'') (NumberDrawn 41 9000 [5, 12, 23, 41])]"
  by code_simp

theorem close_by_rebound_admin_witness:
  "r_adminSocketId (roomObjs reboundA 0) = Some ''s3''
   \<and> rooms (fst (roomClose demoConfig ''s3'' (Some ''AB12CD'') 8000 False reboundA)) ''AB12CD'' \<noteq> None"
  using close_by_rebound_admin by simp

text \<open>What \<^verbatim>\<open>room:close\<close> does when it goes through: for the socket whose id is the
  room's \<^verbatim>\<open>adminId\<close>, and for anybody when the room is over.\<close>

lemma roomClose_succeeds:
  assumes "rooms st rid = Some ra"
    and "r_gameOver (roomObjs st ra)
         \<or> (\<exists>ua. users st sock = Some ua \<and> u_isAdmin (userObjs st ua)
                  \<and> r_adminId (roomObjs st ra) = u_userId (userObjs st ua))"
  shows "\<exists>how. roomClose cfg sock (Some rid) now fileTooBig st
           = ((case (if r_gameOver (roomObjs st ra) then r_winnerInfo (roomObjs st ra) else None) of
                 None \<Rightarrow> st
               | Some w \<Rightarrow> archive cfg fileTooBig (roomObjs st ra) w now st)
              \<lparr>rooms := (rooms st)(rid := None)\<rparr>,
              [Broadcast (Some rid) (RoomClosed how)])"
  using assms
  by (auto simp: roomClose_def lookupRoom_def Let_def archive_def split: option.splits)

section \<open>Who may draw\<close>

text \<open>
  C6 at the input where the code departs from it. The room \<open>AB12CD\<close> was created by the
  admin on socket \<open>a1\<close>, who is its \<^verbatim>\<open>adminId\<close> and its admin socket. A second admin,
  on socket \<open>a2\<close>, has joined the room with \<^verbatim>\<open>room:join\<close>. The
  \<^verbatim>\<open>game:drawNumber\<close> of \<open>a2\<close> is not refused: it draws 42 in that room and
  broadcasts it.
\<close>

theorem draw_by_unbound_admin:
  "run demoConfig gameB (init []) \<noteq> None
   \<and> rooms afterGameB ''AB12CD'' = Some 0
   \<and> r_adminId (roomObjs afterGameB 0) = ''a1''
   \<and> r_adminSocketId (roomObjs afterGameB 0) = Some ''a1''
   \<and> r_drawnNumbers (roomObjs afterGameB 0) = []
   \<and> map_option snd (drawNumber ''a2'' [41] 3000 afterGameB)
       = Some [Broadcast (Some ''AB12CD'') (NumberDrawn 42 3500 [42])]
   \<and> r_drawnNumbers (roomObjs (fst (the (drawNumber ''a2'' [41] 3000 afterGameB))) 0) = [42]"
  by code_simp

theorem draw_by_unbound_admin_witness:
  "r_adminSocketId (roomObjs afterGameB 0) \<noteq> Some ''a2''
   \<and> r_drawnNumbers (roomObjs (fst (the (drawNumber ''a2'' [41] 3000 afterGameB))) 0)
       \<noteq> r_drawnNumbers (roomObjs afterGameB 0)"
  using draw_by_unbound_admin by simp

text \<open>What the handler does test: a socket without a user, a user that is not an admin
  and an admin without a room are refused, and nothing changes.\<close>

lemma drawNumber_refused:
  assumes "\<not> (\<exists>ua. users st sock = Some ua \<and> u_isAdmin (userObjs st ua)
                 \<and> truthy (u_roomId (userObjs st ua)))"
  shows "drawNumber sock samples now st = Some (st, [Emit sock (Error OnlyRoomAdminCanDraw)])"
  using assms
  by (auto simp: drawNumber_def Let_def split: option.splits)

end
